theory Spec2Isabelle
  imports Complex_Main
begin

section \<open>Traffic microsimulation of the grid city\<close>

text \<open>
  The simulation core of \<^verbatim>\<open>TrafficScene\<close>: the network builder, the signal
  controller and the car-following physics. JavaScript numbers are modelled as
  \<^typ>\<open>real\<close>: the embedding follows the arithmetic the source writes and leaves the
  rounding of IEEE doubles out. \<^verbatim>\<open>Math.random()\<close> is an explicit argument, a
  real in \<open>[0, 1)\<close>. A thrown \<^verbatim>\<open>TypeError\<close> is the value \<open>None\<close>.
\<close>

subsection \<open>Scientific configuration\<close>

definition PHYSICS_HZ :: real where "PHYSICS_HZ = 60"
definition PHYSICS_DT :: real where "PHYSICS_DT = 1 / PHYSICS_HZ"

definition GRID_SIZE :: nat where "GRID_SIZE = 3"
definition BLOCK_SIZE :: real where "BLOCK_SIZE = 160"
definition ROAD_WIDTH :: real where "ROAD_WIDTH = 12"
definition LANE_OFFSET :: real where "LANE_OFFSET = 3"

definition CAR_COUNT :: nat where "CAR_COUNT = 500"
definition CAR_LENGTH :: real where "CAR_LENGTH = 46 / 10"
definition MIN_GAP :: real where "MIN_GAP = 2"

definition IDM_V0 :: real where "IDM_V0 = 14"
definition IDM_T :: real where "IDM_T = 16 / 10"
definition IDM_A :: real where "IDM_A = 15 / 10"
definition IDM_B :: real where "IDM_B = 25 / 10"
definition IDM_S0 :: real where "IDM_S0 = 3"

text \<open>The colours of \<^verbatim>\<open>THEME\<close> that the simulation reads back, as hex numbers.\<close>

definition CAR_FLOW :: nat where "CAR_FLOW = 0x3b82f6"
definition CAR_BRAKE :: nat where "CAR_BRAKE = 0xf43f5e"
definition CAR_ACCEL :: nat where "CAR_ACCEL = 0x10b981"
definition LIGHT_RED :: nat where "LIGHT_RED = 0xf43f5e"
definition LIGHT_GREEN :: nat where "LIGHT_GREEN = 0x10b981"
definition LIGHT_AMBER :: nat where "LIGHT_AMBER = 0xf59e0b"

subsection \<open>Numbers of the host language\<close>

text \<open>
  \<^verbatim>\<open>x % y\<close> on numbers: the remainder has the sign of the dividend, the quotient
  is truncated towards zero. \<^verbatim>\<open>Math.floor(Math.random() * n)\<close> used as an
  array index is \<open>rnd_index\<close>.
\<close>

definition js_trunc :: "real \<Rightarrow> int" where
  "js_trunc x = (if 0 \<le> x then \<lfloor>x\<rfloor> else \<lceil>x\<rceil>)"

definition js_rem :: "real \<Rightarrow> real \<Rightarrow> real" where
  "js_rem x y = x - y * of_int (js_trunc (x / y))"

definition rnd_index :: "real \<Rightarrow> nat \<Rightarrow> nat" where
  "rnd_index r n = nat \<lfloor>r * real n\<rfloor>"

text \<open>A string is truthy when it is not empty; \<^verbatim>\<open>null\<close> and \<^verbatim>\<open>undefined\<close> are \<open>None\<close>.\<close>

definition truthy :: "string option \<Rightarrow> bool" where
  "truthy s = (case s of None \<Rightarrow> False | Some k \<Rightarrow> k \<noteq> [])"

subsection \<open>Signal controller\<close>

record TrafficLight =
  nodeId :: string
  phase :: nat
  timer :: real
  meshNS :: nat
  meshEW :: nat

definition T_GREEN :: real where "T_GREEN = 10"
definition T_YELLOW :: real where "T_YELLOW = 4"
definition T_RED_CLEAR :: real where "T_RED_CLEAR = 2"
definition CYCLE :: real where "CYCLE = (T_GREEN + T_YELLOW + T_RED_CLEAR) * 2"

text \<open>The if-chain of \<^verbatim>\<open>updateTrafficLights\<close> on \<open>t = timer % CYCLE\<close>: the pair (ns, ew).\<close>

definition signal_colors :: "real \<Rightarrow> nat \<times> nat" where
  "signal_colors t =
    (if t < T_GREEN then (LIGHT_GREEN, LIGHT_RED)
     else if t < T_GREEN + T_YELLOW then (LIGHT_AMBER, LIGHT_RED)
     else if t < T_GREEN + T_YELLOW + T_RED_CLEAR then (LIGHT_RED, LIGHT_RED)
     else if t < T_GREEN + T_YELLOW + T_RED_CLEAR + T_GREEN then (LIGHT_RED, LIGHT_GREEN)
     else if t < T_GREEN + T_YELLOW + T_RED_CLEAR + T_GREEN + T_YELLOW then (LIGHT_RED, LIGHT_AMBER)
     else (LIGHT_RED, LIGHT_RED))"

text \<open>
  The body of the \<^verbatim>\<open>forEach\<close> for one light. The new timer is the exact sum
  \<open>timer + dt\<close>, where the source rounds the sum to a double at every tick; the colours
  are read from the timer that is stored. What is proved of a light below is proved of
  its stored timer, whatever its value, and says nothing of the tick at which the
  rounded sum crosses a window boundary.
\<close>

definition update_light :: "real \<Rightarrow> TrafficLight \<Rightarrow> TrafficLight" where
  "update_light dt light =
    (let timer' = timer light + dt;
         t = js_rem timer' CYCLE;
         (ns, ew) = signal_colors t
     in light\<lparr>timer := timer', meshNS := ns, meshEW := ew\<rparr>)"

text \<open>\<^verbatim>\<open>lightsRef\<close> is a \<^verbatim>\<open>Map\<close> from node id to light, in insertion order.\<close>

type_synonym lights = "(string \<times> TrafficLight) list"

definition updateTrafficLights :: "real \<Rightarrow> lights \<Rightarrow> lights" where
  "updateTrafficLights dt ls = map (\<lambda>(k, light). (k, update_light dt light)) ls"

text \<open>The light of a grid node as \<^verbatim>\<open>buildNetwork\<close> creates it, from two random draws.\<close>

definition new_light :: "string \<Rightarrow> real \<Rightarrow> real \<Rightarrow> TrafficLight" where
  "new_light nid r_phase r_timer =
    \<lparr>nodeId = nid, phase = nat \<lfloor>r_phase * 6\<rfloor>, timer = r_timer * 10,
     meshNS = LIGHT_RED, meshEW = LIGHT_GREEN\<rparr>"

text \<open>
  The phase table of the specification, for the comparison with the source's chain:
  six windows of the cycle of length \<open>T = 2 (G + Y + R)\<close>, read at \<open>timer mod T\<close>.
\<close>

datatype Signal = GREEN | YELLOW | RED

definition rmod :: "real \<Rightarrow> real \<Rightarrow> real" where
  "rmod x m = x - m * of_int \<lfloor>x / m\<rfloor>"

definition spec_phase_table :: "real \<Rightarrow> real \<Rightarrow> real \<Rightarrow> real \<Rightarrow> Signal \<times> Signal" where
  "spec_phase_table G Y R u =
    (if 0 \<le> u \<and> u < G then (GREEN, RED)
     else if G \<le> u \<and> u < G + Y then (YELLOW, RED)
     else if G + Y \<le> u \<and> u < G + Y + R then (RED, RED)
     else if G + Y + R \<le> u \<and> u < 2 * G + Y + R then (RED, GREEN)
     else if 2 * G + Y + R \<le> u \<and> u < 2 * G + 2 * Y + R then (RED, YELLOW)
     else (RED, RED))"

definition signal_of_color :: "nat \<Rightarrow> Signal" where
  "signal_of_color col =
    (if col = LIGHT_GREEN then GREEN else if col = LIGHT_AMBER then YELLOW else RED)"

subsection \<open>Car-following model\<close>

text \<open>The two lines of \<^verbatim>\<open>updatePhysics\<close> that compute \<open>s_star\<close> and \<open>acc\<close>.\<close>

definition s_star :: "real \<Rightarrow> real \<Rightarrow> real" where
  "s_star v dv = IDM_S0 + max 0 (v * IDM_T + (v * dv) / (2 * sqrt (IDM_A * IDM_B)))"

definition idm_acc :: "real \<Rightarrow> real \<Rightarrow> real \<Rightarrow> real" where
  "idm_acc v dv gap =
    IDM_A * (1 - (v / IDM_V0) ^ 4 - (s_star v dv / max (1 / 10) gap) ^ 2)"

text \<open>Gap and closing speed to a leader on the same lane.\<close>

definition leader_gap :: "real \<Rightarrow> real \<Rightarrow> real" where
  "leader_gap leader_t self_t = leader_t - self_t - CAR_LENGTH"

definition leader_dv :: "real \<Rightarrow> real \<Rightarrow> real" where
  "leader_dv self_v leader_v = self_v - leader_v"

subsection \<open>Vectors and curves of the geometry library\<close>

text \<open>
  The network builder calls three.js for its geometry. The library is not part of the
  repository; its functions are written here as the library computes them:
  \<^verbatim>\<open>normalize\<close> divides by \<^verbatim>\<open>length() || 1\<close>, \<^verbatim>\<open>angleTo\<close> is the arc
  cosine of the clamped normalised dot product (and \<open>\<pi>/2\<close> for a zero denominator),
  \<^verbatim>\<open>getLength\<close> sums 200 chords, a line's tangent is its normalised direction
  and a curve's default tangent is the normalised chord around the parameter.
\<close>

datatype Vector3 = Vector3 (vx: real) (vy: real) (vz: real)

definition v_add :: "Vector3 \<Rightarrow> Vector3 \<Rightarrow> Vector3" where
  "v_add p q = Vector3 (vx p + vx q) (vy p + vy q) (vz p + vz q)"

definition v_sub :: "Vector3 \<Rightarrow> Vector3 \<Rightarrow> Vector3" where
  "v_sub p q = Vector3 (vx p - vx q) (vy p - vy q) (vz p - vz q)"

definition multiplyScalar :: "Vector3 \<Rightarrow> real \<Rightarrow> Vector3" where
  "multiplyScalar p s = Vector3 (vx p * s) (vy p * s) (vz p * s)"

definition divideScalar :: "Vector3 \<Rightarrow> real \<Rightarrow> Vector3" where
  "divideScalar p s = multiplyScalar p (1 / s)"

definition v_dot :: "Vector3 \<Rightarrow> Vector3 \<Rightarrow> real" where
  "v_dot p q = vx p * vx q + vy p * vy q + vz p * vz q"

definition lengthSq :: "Vector3 \<Rightarrow> real" where
  "lengthSq p = vx p * vx p + vy p * vy p + vz p * vz p"

definition v_length :: "Vector3 \<Rightarrow> real" where
  "v_length p = sqrt (lengthSq p)"

definition normalize :: "Vector3 \<Rightarrow> Vector3" where
  "normalize p = divideScalar p (if v_length p = 0 then 1 else v_length p)"

definition distanceTo :: "Vector3 \<Rightarrow> Vector3 \<Rightarrow> real" where
  "distanceTo p q = v_length (v_sub p q)"

definition clamp :: "real \<Rightarrow> real \<Rightarrow> real \<Rightarrow> real" where
  "clamp x lo hi = max lo (min hi x)"

definition angleTo :: "Vector3 \<Rightarrow> Vector3 \<Rightarrow> real" where
  "angleTo p q =
    (let denominator = sqrt (lengthSq p * lengthSq q)
     in if denominator = 0 then pi / 2
        else arccos (clamp (v_dot p q / denominator) (- 1) 1))"

datatype Curve =
    LineCurve3 Vector3 Vector3
  | QuadraticBezierCurve3 Vector3 Vector3 Vector3

fun getPoint :: "Curve \<Rightarrow> real \<Rightarrow> Vector3" where
  "getPoint (LineCurve3 v1 v2) u =
    (if u = 1 then v2 else v_add (multiplyScalar (v_sub v2 v1) u) v1)"
| "getPoint (QuadraticBezierCurve3 p0 p1 p2) u =
    v_add (v_add (multiplyScalar p0 ((1 - u) * (1 - u)))
                 (multiplyScalar p1 (2 * (1 - u) * u)))
          (multiplyScalar p2 (u * u))"

definition arcLengthDivisions :: nat where "arcLengthDivisions = 200"

definition getLength :: "Curve \<Rightarrow> real" where
  "getLength c =
    (\<Sum>p \<leftarrow> [1..<Suc arcLengthDivisions].
        distanceTo (getPoint c (real p / real arcLengthDivisions))
                   (getPoint c (real (p - 1) / real arcLengthDivisions)))"

fun getTangent :: "Curve \<Rightarrow> real \<Rightarrow> Vector3" where
  "getTangent (LineCurve3 v1 v2) u = normalize (v_sub v2 v1)"
| "getTangent c u =
    (let delta = 1 / 10000;
         t1 = (if u - delta < 0 then 0 else u - delta);
         t2 = (if u + delta > 1 then 1 else u + delta)
     in normalize (v_sub (getPoint c t2) (getPoint c t1)))"

subsection \<open>Data models\<close>

datatype LaneType = ROAD | JUNCTION

datatype Dir = NS | EW

record Lane =
  lane_id :: string
  lane_type :: LaneType
  path :: Curve
  len :: real
  nextLanes :: "string list"
  prevLanes :: "string list"
  toNodeId :: "string option"
  direction :: "Dir option"

record Car =
  car_id :: nat
  active :: bool
  laneId :: "string option"
  car_t :: real
  car_v :: real
  car_a :: real
  color :: nat
  targetLaneId :: "string option"

text \<open>
  A \<^verbatim>\<open>Map\<close> keeps its keys in insertion order; setting an existing key replaces
  the value in place. Lane objects are shared between the map and the arrays taken
  from it, so the lanes live in a store of objects and the map holds their addresses.
\<close>

fun amap_set :: "'k \<Rightarrow> 'v \<Rightarrow> ('k \<times> 'v) list \<Rightarrow> ('k \<times> 'v) list" where
  "amap_set k v [] = [(k, v)]"
| "amap_set k v ((k', v') # m) =
    (if k' = k then (k, v) # m else (k', v') # amap_set k v m)"

record LaneStore =
  objs :: "Lane list"
  refs :: "(string \<times> nat) list"

definition empty_store :: LaneStore where
  "empty_store = \<lparr>objs = [], refs = []\<rparr>"

definition lanes_set :: "string \<Rightarrow> Lane \<Rightarrow> LaneStore \<Rightarrow> LaneStore" where
  "lanes_set k l st =
    \<lparr>objs = objs st @ [l], refs = amap_set k (length (objs st)) (refs st)\<rparr>"

definition lanes_values :: "LaneStore \<Rightarrow> nat list" where
  "lanes_values st = map snd (refs st)"

text \<open>The frozen view that the physics reads: key and lane, in insertion order.\<close>

type_synonym lanes = "(string \<times> Lane) list"

definition lanes_view :: "LaneStore \<Rightarrow> lanes" where
  "lanes_view st = map (\<lambda>(k, a). (k, objs st ! a)) (refs st)"

definition lanes_get :: "lanes \<Rightarrow> string option \<Rightarrow> Lane option" where
  "lanes_get ls k = (case k of None \<Rightarrow> None | Some key \<Rightarrow> map_of ls key)"

subsection \<open>Strings\<close>

definition digit_char :: "nat \<Rightarrow> char" where
  "digit_char d = ''0123456789'' ! d"

fun string_of_nat :: "nat \<Rightarrow> string" where
  "string_of_nat n =
    (if n < 10 then [digit_char n] else string_of_nat (n div 10) @ [digit_char (n mod 10)])"

definition startsWith :: "string \<Rightarrow> string \<Rightarrow> bool" where
  "startsWith s p = (take (length p) s = p)"

text \<open>A template literal prints \<^verbatim>\<open>undefined\<close> for a missing value.\<close>

definition template_str :: "string option \<Rightarrow> string" where
  "template_str s = (case s of None \<Rightarrow> ''undefined'' | Some k \<Rightarrow> k)"

definition node_id :: "nat \<Rightarrow> nat \<Rightarrow> string" where
  "node_id x z = string_of_nat x @ ''_'' @ string_of_nat z"

subsection \<open>Network generation\<close>

definition getNodePos :: "nat \<Rightarrow> nat \<Rightarrow> Vector3" where
  "getNodePos x y = Vector3 ((real x - 1) * BLOCK_SIZE) 0 ((real y - 1) * BLOCK_SIZE)"

text \<open>Part A of \<^verbatim>\<open>buildNetwork\<close>: one light per grid node (the meshes are left out).\<close>

definition build_lights :: "(nat \<Rightarrow> nat \<Rightarrow> real) \<Rightarrow> (nat \<Rightarrow> nat \<Rightarrow> real) \<Rightarrow> lights" where
  "build_lights r_phase r_timer =
    fold (\<lambda>x. fold (\<lambda>z. amap_set (node_id x z)
                          (new_light (node_id x z) (r_phase x z) (r_timer x z)))
                    [0..<GRID_SIZE])
         [0..<GRID_SIZE] []"

text \<open>Part B: the road lanes.\<close>

definition addRoadLane ::
  "Vector3 \<Rightarrow> Vector3 \<Rightarrow> string \<Rightarrow> string \<Rightarrow> Dir \<Rightarrow> LaneStore \<Rightarrow> LaneStore" where
  "addRoadLane p1 p2 k toNode dir st =
    (let curve = LineCurve3 p1 p2
     in lanes_set k
          \<lparr>lane_id = k, lane_type = ROAD, path = curve, len = getLength curve,
           nextLanes = [], prevLanes = [], toNodeId = Some toNode, direction = Some dir\<rparr>
          st)"

definition road_id :: "string \<Rightarrow> string \<Rightarrow> string" where
  "road_id n1 n2 = ''R_'' @ n1 @ ''_'' @ n2"

definition roads_east :: "nat \<Rightarrow> nat \<Rightarrow> LaneStore \<Rightarrow> LaneStore" where
  "roads_east x z st =
    (let curr = getNodePos x z; nodeId = node_id x z
     in if x + 1 < GRID_SIZE then
          let next = getNodePos (x + 1) z;
              nextNodeId = node_id (x + 1) z;
              s1 = v_add curr (Vector3 ROAD_WIDTH 0 LANE_OFFSET);
              e1 = v_add next (Vector3 (- ROAD_WIDTH) 0 LANE_OFFSET);
              st1 = addRoadLane s1 e1 (road_id nodeId nextNodeId) nextNodeId EW st;
              s2 = v_add next (Vector3 (- ROAD_WIDTH) 0 (- LANE_OFFSET));
              e2 = v_add curr (Vector3 ROAD_WIDTH 0 (- LANE_OFFSET))
          in addRoadLane s2 e2 (road_id nextNodeId nodeId) nodeId EW st1
        else st)"

definition roads_south :: "nat \<Rightarrow> nat \<Rightarrow> LaneStore \<Rightarrow> LaneStore" where
  "roads_south x z st =
    (let curr = getNodePos x z; nodeId = node_id x z
     in if z + 1 < GRID_SIZE then
          let next = getNodePos x (z + 1);
              nextNodeId = node_id x (z + 1);
              s1 = v_add curr (Vector3 (- LANE_OFFSET) 0 ROAD_WIDTH);
              e1 = v_add next (Vector3 (- LANE_OFFSET) 0 (- ROAD_WIDTH));
              st1 = addRoadLane s1 e1 (road_id nodeId nextNodeId) nextNodeId NS st;
              s2 = v_add next (Vector3 LANE_OFFSET 0 (- ROAD_WIDTH));
              e2 = v_add curr (Vector3 LANE_OFFSET 0 ROAD_WIDTH)
          in addRoadLane s2 e2 (road_id nextNodeId nodeId) nodeId NS st1
        else st)"

definition build_roads :: "LaneStore \<Rightarrow> LaneStore" where
  "build_roads st =
    fold (\<lambda>x. fold (\<lambda>z s. roads_south x z (roads_east x z s)) [0..<GRID_SIZE])
         [0..<GRID_SIZE] st"

text \<open>
  Part C: the junction lanes. \<open>ia\<close> and \<open>oa\<close> are the addresses of the in-lane and
  the out-lane objects; the push to \<^verbatim>\<open>inLane.nextLanes\<close> changes the object at \<open>ia\<close>.
\<close>

definition junction_id :: "string \<Rightarrow> string \<Rightarrow> string" where
  "junction_id i out = ''J_'' @ i @ ''_'' @ out"

definition push_next :: "nat \<Rightarrow> string \<Rightarrow> LaneStore \<Rightarrow> LaneStore" where
  "push_next ia k st =
    st\<lparr>objs := (objs st)[ia := (objs st ! ia)\<lparr>nextLanes := nextLanes (objs st ! ia) @ [k]\<rparr>]\<rparr>"

definition junction_lane :: "Lane \<Rightarrow> Lane \<Rightarrow> Lane" where
  "junction_lane inLane outLane =
    (let inDir = getTangent (path inLane) 1;
         p1 = getPoint (path inLane) 1;
         p2 = getPoint (path outLane) 0;
         control = v_add p1 (multiplyScalar inDir (ROAD_WIDTH * (15 / 10)));
         curve = QuadraticBezierCurve3 p1 control p2;
         jId = junction_id (lane_id inLane) (lane_id outLane)
     in \<lparr>lane_id = jId, lane_type = JUNCTION, path = curve, len = getLength curve,
         nextLanes = [lane_id outLane], prevLanes = [lane_id inLane],
         toNodeId = None, direction = None\<rparr>)"

definition junction_pair :: "nat \<Rightarrow> nat \<Rightarrow> LaneStore \<Rightarrow> LaneStore" where
  "junction_pair ia oa st =
    (let inLane = objs st ! ia; outLane = objs st ! oa
     in if lane_type outLane \<noteq> ROAD then st
        else if startsWith (lane_id outLane) (''R_'' @ template_str (toNodeId inLane) @ ''_'') then
          let inDir = getTangent (path inLane) 1;
              outDir = getTangent (path outLane) 0;
              angle = angleTo inDir outDir
          in if angle > pi * (8 / 10) then st
             else
               let jId = junction_id (lane_id inLane) (lane_id outLane)
               in push_next ia jId (lanes_set jId (junction_lane inLane outLane) st)
        else st)"

definition junctions_from :: "nat \<Rightarrow> LaneStore \<Rightarrow> LaneStore" where
  "junctions_from ia st =
    (if lane_type (objs st ! ia) \<noteq> ROAD then st
     else fold (junction_pair ia) (lanes_values st) st)"

definition build_junctions :: "LaneStore \<Rightarrow> LaneStore" where
  "build_junctions st = fold junctions_from (lanes_values st) st"

definition buildNetwork :: "(nat \<Rightarrow> nat \<Rightarrow> real) \<Rightarrow> (nat \<Rightarrow> nat \<Rightarrow> real) \<Rightarrow> lights \<times> LaneStore" where
  "buildNetwork r_phase r_timer =
    (build_lights r_phase r_timer, build_junctions (build_roads empty_store))"

definition network :: lanes where
  "network = lanes_view (build_junctions (build_roads empty_store))"

subsection \<open>Traffic logic\<close>

text \<open>
  \<^verbatim>\<open>initCars\<close>: car \<open>i\<close> takes two random draws, one for its lane and one for its
  position. Indexing an empty \<^verbatim>\<open>startLanes\<close> yields \<^verbatim>\<open>undefined\<close>, whose
  \<^verbatim>\<open>id\<close> cannot be read.
\<close>

definition nth_opt :: "'a list \<Rightarrow> nat \<Rightarrow> 'a option" where
  "nth_opt xs i = (if i < length xs then Some (xs ! i) else None)"

definition startLanes :: "lanes \<Rightarrow> Lane list" where
  "startLanes ls = filter (\<lambda>l. lane_type l = ROAD) (map snd ls)"

definition WHITE :: nat where "WHITE = 0xffffff"

definition new_car :: "nat \<Rightarrow> Lane \<Rightarrow> real \<Rightarrow> Car" where
  "new_car i lane r_pos =
    \<lparr>car_id = i, active = True, laneId = Some (lane_id lane),
     car_t = r_pos * len lane * (9 / 10), car_v = IDM_V0 * (5 / 10), car_a = 0,
     color = WHITE, targetLaneId = None\<rparr>"

fun init_loop ::
  "lanes \<Rightarrow> (nat \<Rightarrow> real) \<Rightarrow> (nat \<Rightarrow> real) \<Rightarrow> nat list \<Rightarrow> Car list \<Rightarrow> Car list option" where
  "init_loop ls r_lane r_pos [] cars = Some cars"
| "init_loop ls r_lane r_pos (i # is) cars =
    (case nth_opt (startLanes ls) (rnd_index (r_lane i) (length (startLanes ls))) of
       None \<Rightarrow> None
     | Some lane \<Rightarrow> init_loop ls r_lane r_pos is (cars @ [new_car i lane (r_pos i)]))"

definition initCars :: "lanes \<Rightarrow> (nat \<Rightarrow> real) \<Rightarrow> (nat \<Rightarrow> real) \<Rightarrow> Car list \<Rightarrow> Car list option" where
  "initCars ls r_lane r_pos cars = init_loop ls r_lane r_pos [0..<CAR_COUNT] cars"

definition getTrafficLightState :: "lights \<Rightarrow> Lane \<Rightarrow> Signal" where
  "getTrafficLightState lts lane =
    (if lane_type lane \<noteq> ROAD \<or> \<not> truthy (toNodeId lane) \<or> direction lane = None then GREEN
     else case map_of lts (the (toNodeId lane)) of
            None \<Rightarrow> GREEN
          | Some light \<Rightarrow>
              (let col = (if direction lane = Some NS then meshNS light else meshEW light)
               in if col = LIGHT_GREEN then GREEN
                  else if col = LIGHT_AMBER then YELLOW
                  else RED))"

text \<open>
  \<^verbatim>\<open>carsByLane\<close>: the cars of a lane in array order, then sorted by descending
  position with the stable sort of the language. A car is named by its index in
  \<^verbatim>\<open>carsRef.current\<close>; the lists hold references, so a later read through them sees
  the car as it is then.
\<close>

definition carsByLane :: "Car list \<Rightarrow> string option \<Rightarrow> nat list" where
  "carsByLane cars k =
    sort_key (\<lambda>i. - car_t (cars ! i)) (filter (\<lambda>i. laneId (cars ! i) = k) [0..<length cars])"

definition indexOf :: "nat list \<Rightarrow> nat \<Rightarrow> int" where
  "indexOf xs x = (if x \<in> set xs then int (length (takeWhile (\<lambda>y. y \<noteq> x) xs)) else - 1)"

definition leader_of :: "nat list \<Rightarrow> nat \<Rightarrow> nat option" where
  "leader_of lanePeers i =
    (let idx = indexOf lanePeers i
     in if idx > 0 then Some (lanePeers ! nat (idx - 1)) else None)"

text \<open>
  The first half of the body of pass 1: the gap, the closing speed and the car with
  its target lane committed. \<open>r\<close> is the draw for the choice among the successors.
  Reading \<^verbatim>\<open>currentLane.len\<close> of a missing lane throws.
\<close>

definition commit_road :: "real \<Rightarrow> Lane \<Rightarrow> Car \<Rightarrow> Car" where
  "commit_road r currentLane car =
    (if \<not> truthy (targetLaneId car) \<and> length (nextLanes currentLane) > 0
     then car\<lparr>targetLaneId :=
                 nth_opt (nextLanes currentLane) (rnd_index r (length (nextLanes currentLane)))\<rparr>
     else car)"

definition commit_junction :: "Lane \<Rightarrow> Car \<Rightarrow> Car" where
  "commit_junction currentLane car =
    (if \<not> truthy (targetLaneId car) \<and> length (nextLanes currentLane) > 0
     then car\<lparr>targetLaneId := nth_opt (nextLanes currentLane) 0\<rparr>
     else car)"

text \<open>The last car of the committed target lane, when that lane has cars.\<close>

definition lastCar_of :: "(string option \<Rightarrow> nat list) \<Rightarrow> Car list \<Rightarrow> Car \<Rightarrow> Car option" where
  "lastCar_of byLane cars car =
    (if truthy (targetLaneId car) then
       (case byLane (targetLaneId car) of
          [] \<Rightarrow> None
        | nextLaneCars \<Rightarrow> Some (cars ! last nextLaneCars))
     else None)"

text \<open>The branch for a car with no leader on its lane.\<close>

definition front_gap ::
  "lights \<Rightarrow> (string option \<Rightarrow> nat list) \<Rightarrow> real \<Rightarrow> Car list \<Rightarrow> Lane \<Rightarrow> Car \<Rightarrow> real \<times> real \<times> Car" where
  "front_gap lts byLane r cars currentLane car =
    (let distToEnd = len currentLane - car_t car
     in if lane_type currentLane = ROAD then
          (let signal = getTrafficLightState lts currentLane
           in if signal = RED \<or> signal = YELLOW then (distToEnd - 2, car_v car, car)
              else
                (let car1 = commit_road r currentLane car
                 in case lastCar_of byLane cars car1 of
                      None \<Rightarrow> (500, 0, car1)
                    | Some lastCar \<Rightarrow>
                        (let virtualGap = distToEnd + car_t lastCar - CAR_LENGTH
                         in if virtualGap < 50
                            then (virtualGap, car_v car - car_v lastCar, car1)
                            else (500, 0, car1))))
        else
          (let car1 = commit_junction currentLane car
           in case lastCar_of byLane cars car1 of
                None \<Rightarrow> (500, 0, car1)
              | Some lastCar \<Rightarrow>
                  (distToEnd + car_t lastCar - CAR_LENGTH, car_v car - car_v lastCar, car1)))"

definition perceive ::
  "lanes \<Rightarrow> lights \<Rightarrow> (string option \<Rightarrow> nat list) \<Rightarrow> real \<Rightarrow> nat \<Rightarrow> Car list
    \<Rightarrow> (real \<times> real \<times> Car) option" where
  "perceive ls lts byLane r i cars =
    (let car = cars ! i
     in case leader_of (byLane (laneId car)) i of
          Some j \<Rightarrow>
            Some (leader_gap (car_t (cars ! j)) (car_t car),
                  leader_dv (car_v car) (car_v (cars ! j)), car)
        | None \<Rightarrow>
            (case lanes_get ls (laneId car) of
               None \<Rightarrow> None
             | Some currentLane \<Rightarrow> Some (front_gap lts byLane r cars currentLane car)))"

text \<open>The second half: the model's acceleration and the hard stop below \<open>MIN_GAP\<close>.\<close>

definition decide :: "real \<times> real \<times> Car \<Rightarrow> Car" where
  "decide p =
    (case p of (gap, dv, car) \<Rightarrow>
       (let acc = idm_acc (car_v car) dv gap
        in if gap < MIN_GAP then car\<lparr>car_v := 0, car_a := - IDM_B * 4\<rparr>
           else car\<lparr>car_a := acc\<rparr>))"

definition pass1_step ::
  "lanes \<Rightarrow> lights \<Rightarrow> (string option \<Rightarrow> nat list) \<Rightarrow> (nat \<Rightarrow> real) \<Rightarrow> nat \<Rightarrow> Car list
    \<Rightarrow> Car list option" where
  "pass1_step ls lts byLane r_target i cars =
    (case perceive ls lts byLane (r_target (car_id (cars ! i))) i cars of
       None \<Rightarrow> None
     | Some p \<Rightarrow> Some (cars[i := decide p]))"

text \<open>\<^verbatim>\<open>forEach\<close> over the car array, stopping at a thrown error.\<close>

fun forEach :: "(nat \<Rightarrow> 's \<Rightarrow> 's option) \<Rightarrow> nat list \<Rightarrow> 's \<Rightarrow> 's option" where
  "forEach f [] s = Some s"
| "forEach f (i # is) s = (case f i s of None \<Rightarrow> None | Some s' \<Rightarrow> forEach f is s')"

definition pass1 ::
  "lanes \<Rightarrow> lights \<Rightarrow> (string option \<Rightarrow> nat list) \<Rightarrow> (nat \<Rightarrow> real) \<Rightarrow> Car list \<Rightarrow> Car list option" where
  "pass1 ls lts byLane r_target cars =
    forEach (pass1_step ls lts byLane r_target) [0..<length cars] cars"

text \<open>The body of pass 2 for one car; \<open>r\<close> is the draw for the respawn lane.\<close>

definition car_color :: "Car \<Rightarrow> nat" where
  "car_color car =
    (if car_a car < - (5 / 10) then CAR_BRAKE
     else if car_v car < IDM_V0 * (3 / 10) then CAR_ACCEL
     else CAR_FLOW)"

definition integrate :: "real \<Rightarrow> lanes \<Rightarrow> real \<Rightarrow> Car \<Rightarrow> Car option" where
  "integrate dt ls r car =
    (let car1 = (if car_v car = 0 \<and> car_a car < 0 then car\<lparr>car_a := 0\<rparr> else car);
         car2 = car1\<lparr>car_v := car_v car1 + car_a car1 * dt\<rparr>;
         car3 = car2\<lparr>car_v := max 0 (car_v car2)\<rparr>;
         car4 = car3\<lparr>car_t := car_t car3 + car_v car3 * dt\<rparr>
     in case lanes_get ls (laneId car4) of
          None \<Rightarrow> None
        | Some lane \<Rightarrow>
            (let car5 =
               (if car_t car4 \<ge> len lane then
                  (if truthy (targetLaneId car4) then
                     car4\<lparr>car_t := car_t car4 - len lane, laneId := targetLaneId car4,
                          targetLaneId := None\<rparr>
                   else
                     (let keys = filter (\<lambda>k. startsWith k ''R_'') (map fst ls)
                      in car4\<lparr>car_t := 0, laneId := nth_opt keys (rnd_index r (length keys))\<rparr>))
                else car4)
             in Some (car5\<lparr>color := car_color car5\<rparr>)))"

definition pass2_step :: "real \<Rightarrow> lanes \<Rightarrow> (nat \<Rightarrow> real) \<Rightarrow> nat \<Rightarrow> Car list \<Rightarrow> Car list option" where
  "pass2_step dt ls r_respawn i cars =
    (case integrate dt ls (r_respawn (car_id (cars ! i))) (cars ! i) of
       None \<Rightarrow> None
     | Some car \<Rightarrow> Some (cars[i := car]))"

definition pass2 :: "real \<Rightarrow> lanes \<Rightarrow> (nat \<Rightarrow> real) \<Rightarrow> Car list \<Rightarrow> Car list option" where
  "pass2 dt ls r_respawn cars = forEach (pass2_step dt ls r_respawn) [0..<length cars] cars"

text \<open>
  One tick. \<open>r_target\<close> and \<open>r_respawn\<close> give each car, by its id, the draw it uses
  when it chooses a successor lane and when it is recycled.
\<close>

definition updatePhysics ::
  "real \<Rightarrow> lanes \<Rightarrow> (nat \<Rightarrow> real) \<Rightarrow> (nat \<Rightarrow> real) \<Rightarrow> lights \<times> Car list
    \<Rightarrow> (lights \<times> Car list) option" where
  "updatePhysics dt ls r_target r_respawn s =
    (case s of (lts, cars) \<Rightarrow>
       (let lts' = updateTrafficLights dt lts;
            byLane = carsByLane cars
        in case pass1 ls lts' byLane r_target cars of
             None \<Rightarrow> None
           | Some cars1 \<Rightarrow>
               (case pass2 dt ls r_respawn cars1 of
                  None \<Rightarrow> None
                | Some cars2 \<Rightarrow> Some (lts', cars2))))"

subsection \<open>Runs and invariants\<close>

text \<open>A light after \<open>n\<close> ticks of the fixed physics step.\<close>

definition light_after :: "nat \<Rightarrow> TrafficLight \<Rightarrow> TrafficLight" where
  "light_after n light = ((update_light PHYSICS_DT) ^^ n) light"

text \<open>
  The loop of \<^verbatim>\<open>animate\<close> calls \<^verbatim>\<open>updatePhysics(PHYSICS_DT)\<close> again and again;
  \<open>run_ticks n\<close> is the state after \<open>n\<close> calls, tick \<open>m\<close> drawing from
  \<open>r_target m\<close> and \<open>r_respawn m\<close>.
\<close>

fun run_ticks ::
  "nat \<Rightarrow> lanes \<Rightarrow> (nat \<Rightarrow> nat \<Rightarrow> real) \<Rightarrow> (nat \<Rightarrow> nat \<Rightarrow> real) \<Rightarrow> lights \<times> Car list
    \<Rightarrow> (lights \<times> Car list) option" where
  "run_ticks 0 ls r_target r_respawn s = Some s"
| "run_ticks (Suc n) ls r_target r_respawn s =
    (case run_ticks n ls r_target r_respawn s of
       None \<Rightarrow> None
     | Some s' \<Rightarrow> updatePhysics PHYSICS_DT ls (r_target n) (r_respawn n) s')"

text \<open>
  The speed a car can reach: the desired speed plus one step of the largest
  acceleration. A network is well formed when its keys are distinct, non-empty and
  equal to the lanes' ids, every lane is longer than one step at that speed, every
  successor is a key, and some key starts with \<open>R_\<close>.
\<close>

definition V_MAX :: real where "V_MAX = IDM_V0 + IDM_A * PHYSICS_DT"

definition wf_net :: "lanes \<Rightarrow> bool" where
  "wf_net ls =
    (distinct (map fst ls) \<and>
     list_all (\<lambda>(k, l). k \<noteq> [] \<and> lane_id l = k \<and> V_MAX * PHYSICS_DT < len l \<and>
                         list_all (\<lambda>x. x \<in> set (map fst ls)) (nextLanes l)) ls \<and>
     list_ex (\<lambda>k. startsWith k ''R_'') (map fst ls))"

definition in_range :: "lanes \<Rightarrow> Car \<Rightarrow> bool" where
  "in_range ls c =
    (case lanes_get ls (laneId c) of
       None \<Rightarrow> False
     | Some lane \<Rightarrow> 0 \<le> car_t c \<and> car_t c < len lane)"

definition car_ok :: "lanes \<Rightarrow> Car \<Rightarrow> bool" where
  "car_ok ls c =
    (case lanes_get ls (laneId c) of
       None \<Rightarrow> False
     | Some lane \<Rightarrow>
         0 \<le> car_t c \<and> car_t c < len lane \<and> 0 \<le> car_v c \<and> car_v c \<le> V_MAX \<and>
         (case targetLaneId c of None \<Rightarrow> True | Some x \<Rightarrow> x \<in> set (nextLanes lane)))"

definition acc_ok :: "Car \<Rightarrow> bool" where
  "acc_ok c = (car_a c \<le> IDM_A * (1 - (car_v c / IDM_V0) ^ 4) \<or> (car_v c = 0 \<and> car_a c < 0))"

subsection \<open>Initial cars and example states\<close>

text \<open>
  What \<^verbatim>\<open>initCars\<close> promises of a new car: the lane its \<open>laneId\<close> names is a ROAD
  lane of the network, and its fields have the values of the object literal.
\<close>

definition init_ok :: "lanes \<Rightarrow> Car \<Rightarrow> bool" where
  "init_ok ls c =
    (case lanes_get ls (laneId c) of
       None \<Rightarrow> False
     | Some lane \<Rightarrow>
         lane_type lane = ROAD \<and> 0 \<le> car_t c \<and> car_t c < (9 / 10) * len lane \<and>
         car_v c = IDM_V0 * (5 / 10) \<and> 0 < car_v c \<and> car_a c = 0 \<and>
         targetLaneId c = None \<and> active c)"

text \<open>What pass 1 keeps of the array while it has not reached index \<open>k\<close>.\<close>

definition kept :: "nat \<Rightarrow> Car list \<Rightarrow> Car list \<Rightarrow> bool" where
  "kept k s s' = (length s' = length s \<and> (\<forall>j. car_t (s' ! j) = car_t (s ! j)) \<and>
                  (\<forall>j. k \<le> j \<longrightarrow> s' ! j = s ! j))"

text \<open>
  A state for the worked examples: the first road lane of the grid with its light, and
  cars on it as \<^verbatim>\<open>initCars\<close> shapes them.
\<close>

definition demo_lane :: Lane where
  "demo_lane = \<lparr>lane_id = ''R_0_0_1_0'', lane_type = ROAD,
     path = LineCurve3 (Vector3 (- 148) 0 (- 157)) (Vector3 (- 12) 0 (- 157)), len = 136,
     nextLanes = [''J_R_0_0_1_0_R_1_0_2_0'', ''J_R_0_0_1_0_R_1_0_1_1''], prevLanes = [],
     toNodeId = Some ''1_0'', direction = Some EW\<rparr>"

definition demo_lanes :: lanes where
  "demo_lanes = [(''R_0_0_1_0'', demo_lane)]"

definition demo_lights :: lights where
  "demo_lights = [(''1_0'', new_light ''1_0'' 0 0)]"

definition demo_car :: "nat \<Rightarrow> real \<Rightarrow> real \<Rightarrow> Car" where
  "demo_car i pos speed =
    \<lparr>car_id = i, active = True, laneId = Some ''R_0_0_1_0'', car_t = pos, car_v = speed,
     car_a = 0, color = WHITE, targetLaneId = None\<rparr>"

subsection \<open>The junction builder in closed form\<close>

text \<open>
  The inner loop of part C connects the in-lane and the out-lane when the id of the
  out-lane starts with \<open>R_\<close>, the destination node of the in-lane and \<open>_\<close>, and the
  angle between the tangents is not above \<open>0.8 \<pi>\<close>. For road lanes \<open>rs\<close> and the
  list \<open>ps\<close> of the pairs of indices connected so far, \<open>store_after rs ps\<close> is the
  store the loops have built: the road lanes with the junction ids pushed to their
  successors, then one junction lane for each pair.
\<close>

definition accepts :: "Lane \<Rightarrow> Lane \<Rightarrow> bool" where
  "accepts inLane outLane =
    (startsWith (lane_id outLane) (''R_'' @ template_str (toNodeId inLane) @ ''_'') \<and>
     \<not> angleTo (getTangent (path inLane) 1) (getTangent (path outLane) 0) > pi * (8 / 10))"

definition jid_of :: "Lane list \<Rightarrow> nat \<times> nat \<Rightarrow> string" where
  "jid_of rs p = junction_id (lane_id (rs ! fst p)) (lane_id (rs ! snd p))"

definition jlane_of :: "Lane list \<Rightarrow> nat \<times> nat \<Rightarrow> Lane" where
  "jlane_of rs p = junction_lane (rs ! fst p) (rs ! snd p)"

definition road_after :: "Lane list \<Rightarrow> (nat \<times> nat) list \<Rightarrow> nat \<Rightarrow> Lane" where
  "road_after rs ps i =
    (rs ! i)\<lparr>nextLanes := nextLanes (rs ! i) @ map (jid_of rs) (filter (\<lambda>p. fst p = i) ps)\<rparr>"

definition store_after :: "Lane list \<Rightarrow> (nat \<times> nat) list \<Rightarrow> LaneStore" where
  "store_after rs ps =
    \<lparr>objs = map (road_after rs ps) [0..<length rs] @ map (jlane_of rs) ps,
     refs = zip (map lane_id rs) [0..<length rs] @
            zip (map (jid_of rs) ps) [length rs..<length rs + length ps]\<rparr>"

definition outs_of :: "Lane list \<Rightarrow> nat \<Rightarrow> nat list" where
  "outs_of rs i = filter (\<lambda>oa. accepts (rs ! i) (rs ! oa)) [0..<length rs]"

definition connected_pairs :: "Lane list \<Rightarrow> (nat \<times> nat) list" where
  "connected_pairs rs = concat (map (\<lambda>i. map (Pair i) (outs_of rs i)) [0..<length rs])"

definition roads_ok :: "Lane list \<Rightarrow> bool" where
  "roads_ok rs =
    (list_all (\<lambda>l. lane_type l = ROAD \<and> length (lane_id l) = 9 \<and> startsWith (lane_id l) ''R_'') rs \<and>
     distinct (map lane_id rs))"

definition pairs_in :: "Lane list \<Rightarrow> (nat \<times> nat) list \<Rightarrow> bool" where
  "pairs_in rs ps = (\<forall>p \<in> set ps. fst p < length rs \<and> snd p < length rs)"

text \<open>The 24 road lanes of the 3 by 3 grid, in the order part B creates them.\<close>

definition road_lanes :: "Lane list" where
  "road_lanes = [
    \<lparr>lane_id = ''R_0_0_1_0'',
      lane_type = ROAD, path = LineCurve3 (Vector3 (- 148) 0 (- 157)) (Vector3 (- 12) 0 (- 157)),
      len = 136, nextLanes = [], prevLanes = [],
      toNodeId = Some ''1_0'', direction = Some EW\<rparr>,
    \<lparr>lane_id = ''R_1_0_0_0'',
      lane_type = ROAD, path = LineCurve3 (Vector3 (- 12) 0 (- 163)) (Vector3 (- 148) 0 (- 163)),
      len = 136, nextLanes = [], prevLanes = [],
      toNodeId = Some ''0_0'', direction = Some EW\<rparr>,
    \<lparr>lane_id = ''R_0_0_0_1'',
      lane_type = ROAD, path = LineCurve3 (Vector3 (- 163) 0 (- 148)) (Vector3 (- 163) 0 (- 12)),
      len = 136, nextLanes = [], prevLanes = [],
      toNodeId = Some ''0_1'', direction = Some NS\<rparr>,
    \<lparr>lane_id = ''R_0_1_0_0'',
      lane_type = ROAD, path = LineCurve3 (Vector3 (- 157) 0 (- 12)) (Vector3 (- 157) 0 (- 148)),
      len = 136, nextLanes = [], prevLanes = [],
      toNodeId = Some ''0_0'', direction = Some NS\<rparr>,
    \<lparr>lane_id = ''R_0_1_1_1'',
      lane_type = ROAD, path = LineCurve3 (Vector3 (- 148) 0 3) (Vector3 (- 12) 0 3),
      len = 136, nextLanes = [], prevLanes = [],
      toNodeId = Some ''1_1'', direction = Some EW\<rparr>,
    \<lparr>lane_id = ''R_1_1_0_1'',
      lane_type = ROAD, path = LineCurve3 (Vector3 (- 12) 0 (- 3)) (Vector3 (- 148) 0 (- 3)),
      len = 136, nextLanes = [], prevLanes = [],
      toNodeId = Some ''0_1'', direction = Some EW\<rparr>,
    \<lparr>lane_id = ''R_0_1_0_2'',
      lane_type = ROAD, path = LineCurve3 (Vector3 (- 163) 0 12) (Vector3 (- 163) 0 148),
      len = 136, nextLanes = [], prevLanes = [],
      toNodeId = Some ''0_2'', direction = Some NS\<rparr>,
    \<lparr>lane_id = ''R_0_2_0_1'',
      lane_type = ROAD, path = LineCurve3 (Vector3 (- 157) 0 148) (Vector3 (- 157) 0 12),
      len = 136, nextLanes = [], prevLanes = [],
      toNodeId = Some ''0_1'', direction = Some NS\<rparr>,
    \<lparr>lane_id = ''R_0_2_1_2'',
      lane_type = ROAD, path = LineCurve3 (Vector3 (- 148) 0 163) (Vector3 (- 12) 0 163),
      len = 136, nextLanes = [], prevLanes = [],
      toNodeId = Some ''1_2'', direction = Some EW\<rparr>,
    \<lparr>lane_id = ''R_1_2_0_2'',
      lane_type = ROAD, path = LineCurve3 (Vector3 (- 12) 0 157) (Vector3 (- 148) 0 157),
      len = 136, nextLanes = [], prevLanes = [],
      toNodeId = Some ''0_2'', direction = Some EW\<rparr>,
    \<lparr>lane_id = ''R_1_0_2_0'',
      lane_type = ROAD, path = LineCurve3 (Vector3 12 0 (- 157)) (Vector3 148 0 (- 157)),
      len = 136, nextLanes = [], prevLanes = [],
      toNodeId = Some ''2_0'', direction = Some EW\<rparr>,
    \<lparr>lane_id = ''R_2_0_1_0'',
      lane_type = ROAD, path = LineCurve3 (Vector3 148 0 (- 163)) (Vector3 12 0 (- 163)),
      len = 136, nextLanes = [], prevLanes = [],
      toNodeId = Some ''1_0'', direction = Some EW\<rparr>,
    \<lparr>lane_id = ''R_1_0_1_1'',
      lane_type = ROAD, path = LineCurve3 (Vector3 (- 3) 0 (- 148)) (Vector3 (- 3) 0 (- 12)),
      len = 136, nextLanes = [], prevLanes = [],
      toNodeId = Some ''1_1'', direction = Some NS\<rparr>,
    \<lparr>lane_id = ''R_1_1_1_0'',
      lane_type = ROAD, path = LineCurve3 (Vector3 3 0 (- 12)) (Vector3 3 0 (- 148)),
      len = 136, nextLanes = [], prevLanes = [],
      toNodeId = Some ''1_0'', direction = Some NS\<rparr>,
    \<lparr>lane_id = ''R_1_1_2_1'',
      lane_type = ROAD, path = LineCurve3 (Vector3 12 0 3) (Vector3 148 0 3),
      len = 136, nextLanes = [], prevLanes = [],
      toNodeId = Some ''2_1'', direction = Some EW\<rparr>,
    \<lparr>lane_id = ''R_2_1_1_1'',
      lane_type = ROAD, path = LineCurve3 (Vector3 148 0 (- 3)) (Vector3 12 0 (- 3)),
      len = 136, nextLanes = [], prevLanes = [],
      toNodeId = Some ''1_1'', direction = Some EW\<rparr>,
    \<lparr>lane_id = ''R_1_1_1_2'',
      lane_type = ROAD, path = LineCurve3 (Vector3 (- 3) 0 12) (Vector3 (- 3) 0 148),
      len = 136, nextLanes = [], prevLanes = [],
      toNodeId = Some ''1_2'', direction = Some NS\<rparr>,
    \<lparr>lane_id = ''R_1_2_1_1'',
      lane_type = ROAD, path = LineCurve3 (Vector3 3 0 148) (Vector3 3 0 12),
      len = 136, nextLanes = [], prevLanes = [],
      toNodeId = Some ''1_1'', direction = Some NS\<rparr>,
    \<lparr>lane_id = ''R_1_2_2_2'',
      lane_type = ROAD, path = LineCurve3 (Vector3 12 0 163) (Vector3 148 0 163),
      len = 136, nextLanes = [], prevLanes = [],
      toNodeId = Some ''2_2'', direction = Some EW\<rparr>,
    \<lparr>lane_id = ''R_2_2_1_2'',
      lane_type = ROAD, path = LineCurve3 (Vector3 148 0 157) (Vector3 12 0 157),
      len = 136, nextLanes = [], prevLanes = [],
      toNodeId = Some ''1_2'', direction = Some EW\<rparr>,
    \<lparr>lane_id = ''R_2_0_2_1'',
      lane_type = ROAD, path = LineCurve3 (Vector3 157 0 (- 148)) (Vector3 157 0 (- 12)),
      len = 136, nextLanes = [], prevLanes = [],
      toNodeId = Some ''2_1'', direction = Some NS\<rparr>,
    \<lparr>lane_id = ''R_2_1_2_0'',
      lane_type = ROAD, path = LineCurve3 (Vector3 163 0 (- 12)) (Vector3 163 0 (- 148)),
      len = 136, nextLanes = [], prevLanes = [],
      toNodeId = Some ''2_0'', direction = Some NS\<rparr>,
    \<lparr>lane_id = ''R_2_1_2_2'',
      lane_type = ROAD, path = LineCurve3 (Vector3 157 0 12) (Vector3 157 0 148),
      len = 136, nextLanes = [], prevLanes = [],
      toNodeId = Some ''2_2'', direction = Some NS\<rparr>,
    \<lparr>lane_id = ''R_2_2_2_1'',
      lane_type = ROAD, path = LineCurve3 (Vector3 163 0 148) (Vector3 163 0 12),
      len = 136, nextLanes = [], prevLanes = [],
      toNodeId = Some ''2_1'', direction = Some NS\<rparr>]"
section \<open>Signal controller: exclusion, phase table and period\<close>

lemmas T_defs = T_GREEN_def T_YELLOW_def T_RED_CLEAR_def CYCLE_def
lemmas LIGHT_defs = LIGHT_RED_def LIGHT_GREEN_def LIGHT_AMBER_def
lemmas IDM_defs = IDM_V0_def IDM_T_def IDM_A_def IDM_B_def IDM_S0_def

lemma js_rem_nonneg: "0 \<le> x \<Longrightarrow> 0 < m \<Longrightarrow> js_rem x m = rmod x m"
  by (simp add: js_rem_def rmod_def js_trunc_def)

lemma rmod_range: "0 < m \<Longrightarrow> 0 \<le> rmod x m \<and> rmod x m < m"
proof -
  assume m: "0 < m"
  have "of_int \<lfloor>x / m\<rfloor> \<le> x / m" by (rule of_int_floor_le)
  then have lo: "of_int \<lfloor>x / m\<rfloor> * m \<le> x"
    using m by (simp only: pos_le_divide_eq)
  have "x / m < of_int \<lfloor>x / m\<rfloor> + 1" by linarith
  then have hi: "x < (of_int \<lfloor>x / m\<rfloor> + 1) * m"
    using m by (simp only: pos_divide_less_eq)
  from lo hi show ?thesis by (simp add: rmod_def algebra_simps)
qed

lemma rmod_period: "0 < m \<Longrightarrow> rmod (x + m) m = rmod x m"
proof -
  assume m: "0 < m"
  then have "(x + m) / m = x / m + 1" by (simp add: field_simps)
  then have "\<lfloor>(x + m) / m\<rfloor> = \<lfloor>x / m\<rfloor> + 1" by simp
  then show ?thesis by (simp add: rmod_def algebra_simps)
qed

lemma colors_distinct:
  "LIGHT_GREEN \<noteq> LIGHT_RED" "LIGHT_AMBER \<noteq> LIGHT_RED" "LIGHT_GREEN \<noteq> LIGHT_AMBER"
  by (simp_all add: LIGHT_defs)

lemma signal_colors_exclusive:
  "signal_colors u \<noteq> (LIGHT_GREEN, LIGHT_GREEN)" "signal_colors u \<noteq> (LIGHT_AMBER, LIGHT_AMBER)"
  using colors_distinct by (auto simp: signal_colors_def)

lemma signal_colors_table:
  "0 \<le> u \<Longrightarrow>
   (signal_of_color (fst (signal_colors u)), signal_of_color (snd (signal_colors u)))
     = spec_phase_table T_GREEN T_YELLOW T_RED_CLEAR u"
  using colors_distinct
  by (auto simp: signal_colors_def spec_phase_table_def signal_of_color_def T_defs)

lemma update_light_colors:
  "(meshNS (update_light dt l), meshEW (update_light dt l)) = signal_colors (js_rem (timer l + dt) CYCLE)"
  by (simp add: update_light_def Let_def split: prod.splits)

lemma update_light_timer: "timer (update_light dt l) = timer l + dt"
  by (simp add: update_light_def Let_def split: prod.splits)

lemma light_after_Suc: "light_after (Suc n) l = update_light PHYSICS_DT (light_after n l)"
  by (simp add: light_after_def)

lemma light_after_timer: "timer (light_after n l) = timer l + real n * PHYSICS_DT"
  by (induction n) (simp_all add: light_after_def update_light_timer algebra_simps)

lemma PHYSICS_DT_pos: "0 < PHYSICS_DT"
  by (simp add: PHYSICS_DT_def PHYSICS_HZ_def)

lemma light_after_colors:
  "(meshNS (light_after (Suc n) l), meshEW (light_after (Suc n) l))
     = signal_colors (js_rem (timer l + real (Suc n) * PHYSICS_DT) CYCLE)"
  unfolding light_after_Suc update_light_colors light_after_timer
  by (simp add: algebra_simps)

lemma light_after_exclusive:
  "(meshNS (light_after n (new_light nid r_phase r_timer)),
    meshEW (light_after n (new_light nid r_phase r_timer))) \<noteq> (LIGHT_GREEN, LIGHT_GREEN) \<and>
   (meshNS (light_after n (new_light nid r_phase r_timer)),
    meshEW (light_after n (new_light nid r_phase r_timer))) \<noteq> (LIGHT_AMBER, LIGHT_AMBER)"
proof (cases n)
  case 0
  then show ?thesis
    using colors_distinct by (simp add: light_after_def new_light_def)
next
  case (Suc m)
  then show ?thesis
    unfolding Suc light_after_colors using signal_colors_exclusive by simp
qed

lemma getTrafficLightState_signal:
  assumes "lane_type lane = ROAD" "toNodeId lane = Some k" "k \<noteq> []" "direction lane = Some d"
    "map_of lts k = Some light"
  shows "getTrafficLightState lts lane =
          signal_of_color (if d = NS then meshNS light else meshEW light)"
  using assms by (simp add: getTrafficLightState_def truthy_def signal_of_color_def Let_def)

text \<open>
  Claim C7. At every intersection, after any number of ticks from the state the builder
  creates, the permissions read for a north-south approach and for an east-west
  approach are never both GREEN and never both YELLOW; the north-south green window
  ends at \<open>G\<close>, the east-west green window starts at \<open>G + Y + R\<close>, and the windows
  \<open>[G + Y, G + Y + R)\<close> and \<open>[2G + 2Y + R, \<infinity>)\<close> of the cycle are all red.
\<close>

theorem signal_mutual_exclusion:
  assumes "lane_type laneNS = ROAD" "toNodeId laneNS = Some nid" "direction laneNS = Some NS"
    and "lane_type laneEW = ROAD" "toNodeId laneEW = Some nid" "direction laneEW = Some EW"
    and "nid \<noteq> []"
    and "map_of lts nid = Some (light_after n (new_light nid r_phase r_timer))"
  shows "\<not> (getTrafficLightState lts laneNS = GREEN \<and> getTrafficLightState lts laneEW = GREEN) \<and>
         \<not> (getTrafficLightState lts laneNS = YELLOW \<and> getTrafficLightState lts laneEW = YELLOW) \<and>
         (\<forall>u. fst (signal_colors u) = LIGHT_GREEN \<longrightarrow> u < T_GREEN) \<and>
         (\<forall>u. snd (signal_colors u) = LIGHT_GREEN \<longrightarrow> T_GREEN + T_YELLOW + T_RED_CLEAR \<le> u) \<and>
         (\<forall>u. T_GREEN + T_YELLOW \<le> u \<and> u < T_GREEN + T_YELLOW + T_RED_CLEAR
               \<longrightarrow> signal_colors u = (LIGHT_RED, LIGHT_RED)) \<and>
         (\<forall>u. 2 * T_GREEN + 2 * T_YELLOW + T_RED_CLEAR \<le> u
               \<longrightarrow> signal_colors u = (LIGHT_RED, LIGHT_RED))"
proof -
  let ?l = "light_after n (new_light nid r_phase r_timer)"
  have ns: "getTrafficLightState lts laneNS = signal_of_color (meshNS ?l)"
    using getTrafficLightState_signal[OF assms(1,2,7,3,8)] by simp
  have ew: "getTrafficLightState lts laneEW = signal_of_color (meshEW ?l)"
    using getTrafficLightState_signal[OF assms(4,5,7,6,8)] by simp
  have ex: "(meshNS ?l, meshEW ?l) \<noteq> (LIGHT_GREEN, LIGHT_GREEN)"
           "(meshNS ?l, meshEW ?l) \<noteq> (LIGHT_AMBER, LIGHT_AMBER)"
    using light_after_exclusive[of n nid r_phase r_timer] by simp_all
  have g: "\<not> (signal_of_color (meshNS ?l) = GREEN \<and> signal_of_color (meshEW ?l) = GREEN)"
    using ex(1) by (auto simp: signal_of_color_def split: if_splits)
  have y: "\<not> (signal_of_color (meshNS ?l) = YELLOW \<and> signal_of_color (meshEW ?l) = YELLOW)"
    using ex(2) by (auto simp: signal_of_color_def split: if_splits)
  have w: "(\<forall>u. fst (signal_colors u) = LIGHT_GREEN \<longrightarrow> u < T_GREEN)"
          "(\<forall>u. snd (signal_colors u) = LIGHT_GREEN \<longrightarrow> T_GREEN + T_YELLOW + T_RED_CLEAR \<le> u)"
          "(\<forall>u. T_GREEN + T_YELLOW \<le> u \<and> u < T_GREEN + T_YELLOW + T_RED_CLEAR
               \<longrightarrow> signal_colors u = (LIGHT_RED, LIGHT_RED))"
          "(\<forall>u. 2 * T_GREEN + 2 * T_YELLOW + T_RED_CLEAR \<le> u
               \<longrightarrow> signal_colors u = (LIGHT_RED, LIGHT_RED))"
    using colors_distinct
    by (auto simp: signal_colors_def T_defs split: if_splits)
  show ?thesis using g y w unfolding ns ew by blast
qed

theorem signal_mutual_exclusion_witness:
  "(let laneNS = \<lparr>lane_id = ''R_1_1_1_0'', lane_type = ROAD,
                   path = LineCurve3 (Vector3 3 0 (- 12)) (Vector3 3 0 (- 148)), len = 136,
                   nextLanes = [], prevLanes = [], toNodeId = Some ''1_0'', direction = Some NS\<rparr>;
        laneEW = \<lparr>lane_id = ''R_0_0_1_0'', lane_type = ROAD,
                   path = LineCurve3 (Vector3 (- 148) 0 (- 157)) (Vector3 (- 12) 0 (- 157)), len = 136,
                   nextLanes = [], prevLanes = [], toNodeId = Some ''1_0'', direction = Some EW\<rparr>;
        lts = [(''1_0'', light_after 7 (new_light ''1_0'' (1 / 2) (1 / 4)))]
    in \<not> (getTrafficLightState lts laneNS = GREEN \<and> getTrafficLightState lts laneEW = GREEN) \<and>
       \<not> (getTrafficLightState lts laneNS = YELLOW \<and> getTrafficLightState lts laneEW = YELLOW)) \<and>
   signal_colors 15 = (LIGHT_RED, LIGHT_RED) \<and> signal_colors 31 = (LIGHT_RED, LIGHT_RED)"
proof -
  let ?laneNS = "\<lparr>lane_id = ''R_1_1_1_0'', lane_type = ROAD,
                   path = LineCurve3 (Vector3 3 0 (- 12)) (Vector3 3 0 (- 148)), len = 136,
                   nextLanes = [], prevLanes = [], toNodeId = Some ''1_0'', direction = Some NS\<rparr>"
  let ?laneEW = "\<lparr>lane_id = ''R_0_0_1_0'', lane_type = ROAD,
                   path = LineCurve3 (Vector3 (- 148) 0 (- 157)) (Vector3 (- 12) 0 (- 157)), len = 136,
                   nextLanes = [], prevLanes = [], toNodeId = Some ''1_0'', direction = Some EW\<rparr>"
  let ?lts = "[(''1_0'', light_after 7 (new_light ''1_0'' (1 / 2) (1 / 4)))]"
  have "\<not> (getTrafficLightState ?lts ?laneNS = GREEN \<and> getTrafficLightState ?lts ?laneEW = GREEN) \<and>
         \<not> (getTrafficLightState ?lts ?laneNS = YELLOW \<and> getTrafficLightState ?lts ?laneEW = YELLOW) \<and>
         (\<forall>u. fst (signal_colors u) = LIGHT_GREEN \<longrightarrow> u < T_GREEN) \<and>
         (\<forall>u. snd (signal_colors u) = LIGHT_GREEN \<longrightarrow> T_GREEN + T_YELLOW + T_RED_CLEAR \<le> u) \<and>
         (\<forall>u. T_GREEN + T_YELLOW \<le> u \<and> u < T_GREEN + T_YELLOW + T_RED_CLEAR
               \<longrightarrow> signal_colors u = (LIGHT_RED, LIGHT_RED)) \<and>
         (\<forall>u. 2 * T_GREEN + 2 * T_YELLOW + T_RED_CLEAR \<le> u
               \<longrightarrow> signal_colors u = (LIGHT_RED, LIGHT_RED))"
    by (rule signal_mutual_exclusion[where nid = "''1_0''" and n = 7 and r_phase = "1 / 2" and r_timer = "1 / 4"])
       simp_all
  moreover have "T_GREEN + T_YELLOW \<le> 15 \<and> (15::real) < T_GREEN + T_YELLOW + T_RED_CLEAR"
    by (simp add: T_defs)
  moreover have "2 * T_GREEN + 2 * T_YELLOW + T_RED_CLEAR \<le> (31::real)"
    by (simp add: T_defs)
  ultimately show ?thesis unfolding Let_def by blast
qed

lemma update_light_table:
  assumes "0 \<le> timer l0 + dt"
  shows "(meshNS (update_light dt l0), meshEW (update_light dt l0))
           = signal_colors (rmod (timer (update_light dt l0)) CYCLE)"
    and "(signal_of_color (meshNS (update_light dt l0)), signal_of_color (meshEW (update_light dt l0)))
           = spec_phase_table T_GREEN T_YELLOW T_RED_CLEAR (rmod (timer (update_light dt l0)) CYCLE)"
proof -
  have c: "0 < CYCLE" by (simp add: T_defs)
  show col: "(meshNS (update_light dt l0), meshEW (update_light dt l0))
           = signal_colors (rmod (timer (update_light dt l0)) CYCLE)"
    unfolding update_light_colors update_light_timer using js_rem_nonneg[OF assms c] by simp
  have "0 \<le> rmod (timer (update_light dt l0)) CYCLE" using rmod_range[OF c] by simp
  from signal_colors_table[OF this]
  show "(signal_of_color (meshNS (update_light dt l0)), signal_of_color (meshEW (update_light dt l0)))
           = spec_phase_table T_GREEN T_YELLOW T_RED_CLEAR (rmod (timer (update_light dt l0)) CYCLE)"
    using col by (metis fst_conv snd_conv)
qed

lemma updatePhysics_lights:
  "updatePhysics dt ls r_target r_respawn (lts, cars) = Some (lts', cars')
    \<Longrightarrow> lts' = updateTrafficLights dt lts"
  by (auto simp: updatePhysics_def Let_def split: option.splits)

lemma updateTrafficLights_nonneg:
  "list_all (\<lambda>(k, l). 0 \<le> timer l) lts \<Longrightarrow> 0 \<le> dt
    \<Longrightarrow> list_all (\<lambda>(k, l). 0 \<le> timer l) (updateTrafficLights dt lts)"
  by (auto simp: updateTrafficLights_def list_all_iff update_light_timer)

lemma run_ticks_nonneg:
  "run_ticks n ls r_target r_respawn (lts0, cars0) = Some (lts, cars)
    \<Longrightarrow> list_all (\<lambda>(k, l). 0 \<le> timer l) lts0
    \<Longrightarrow> list_all (\<lambda>(k, l). 0 \<le> timer l) lts"
proof (induction n arbitrary: lts cars)
  case 0
  then show ?case by simp
next
  case (Suc n)
  from Suc.prems(1) obtain lts1 cars1 where
    r: "run_ticks n ls r_target r_respawn (lts0, cars0) = Some (lts1, cars1)"
    and u: "updatePhysics PHYSICS_DT ls (r_target n) (r_respawn n) (lts1, cars1) = Some (lts, cars)"
    by (auto split: option.splits)
  have "list_all (\<lambda>(k, l). 0 \<le> timer l) lts1" by (rule Suc.IH[OF r Suc.prems(2)])
  then show ?case
    unfolding updatePhysics_lights[OF u]
    using PHYSICS_DT_pos by (intro updateTrafficLights_nonneg) simp_all
qed

lemma run_ticks_entry:
  assumes "run_ticks (Suc n) ls r_target r_respawn (lts0, cars0) = Some (lts, cars)"
    and "list_all (\<lambda>(k, l). 0 \<le> timer l) lts0" and "(k, l) \<in> set lts"
  shows "\<exists>l1. 0 \<le> timer l1 + PHYSICS_DT \<and> l = update_light PHYSICS_DT l1"
proof -
  from assms(1) obtain lts1 cars1 where
    r: "run_ticks n ls r_target r_respawn (lts0, cars0) = Some (lts1, cars1)"
    and u: "updatePhysics PHYSICS_DT ls (r_target n) (r_respawn n) (lts1, cars1) = Some (lts, cars)"
    by (auto split: option.splits)
  have n: "list_all (\<lambda>(k, l). 0 \<le> timer l) lts1" by (rule run_ticks_nonneg[OF r assms(2)])
  from assms(3) obtain l1 where l1: "(k, l1) \<in> set lts1" "l = update_light PHYSICS_DT l1"
    unfolding updatePhysics_lights[OF u] by (auto simp: updateTrafficLights_def)
  have "0 \<le> timer l1" using n l1(1) by (auto simp: list_all_iff)
  then have "0 \<le> timer l1 + PHYSICS_DT" using PHYSICS_DT_pos by simp
  then show ?thesis using l1(2) by blast
qed

lemma updateTrafficLights_pow:
  "((updateTrafficLights PHYSICS_DT) ^^ n) lts = map (\<lambda>(k, l). (k, light_after n l)) lts"
proof (induction n)
  case 0
  then show ?case by (simp add: light_after_def case_prod_beta)
next
  case (Suc n)
  then show ?case
    by (simp add: updateTrafficLights_def light_after_Suc case_prod_beta comp_def)
qed

lemma run_ticks_no_cars:
  "run_ticks n ls r_target r_respawn (lts, []) = Some (((updateTrafficLights PHYSICS_DT) ^^ n) lts, [])"
  by (induction n) (simp_all add: updatePhysics_def pass1_def pass2_def carsByLane_def Let_def)

lemma light_after_colors_pos:
  "0 < n \<Longrightarrow> (meshNS (light_after n l), meshEW (light_after n l))
     = signal_colors (js_rem (timer l + real n * PHYSICS_DT) CYCLE)"
  using light_after_colors[of "n - 1" l] by simp

lemma build_lights_eval:
  "build_lights r_phase r_timer =
      [(node_id x z, new_light (node_id x z) (r_phase x z) (r_timer x z)). x \<leftarrow> [0, Suc 0, Suc (Suc 0)],
          z \<leftarrow> [0, Suc 0, Suc (Suc 0)]]"
  by (simp add: build_lights_def GRID_SIZE_def upt_rec node_id_def digit_char_def)

text \<open>
  Claim C8, as the specification states it: the pair of displayed colours is the entry
  of the six-phase table at \<open>timer mod T\<close>, and the sequence repeats with period \<open>T\<close>.
  It fails at the state the builder creates. With the draw \<open>1/2\<close> every timer is 5,
  where the table shows (GREEN, RED), but the signal heads are created with the colours
  red for north-south and green for east-west, so the nine lights show (RED, GREEN);
  1920 ticks later, one period of 32 seconds, they show (GREEN, RED), not what they
  showed at the start.
\<close>

theorem signal_table_counterexample:
  "length (build_lights (\<lambda>x z. 0) (\<lambda>x z. 1 / 2)) = 9 \<and>
   list_all (\<lambda>(k, l). timer l = 5 \<and> (signal_of_color (meshNS l), signal_of_color (meshEW l)) = (RED, GREEN))
       (build_lights (\<lambda>x z. 0) (\<lambda>x z. 1 / 2)) \<and>
   spec_phase_table T_GREEN T_YELLOW T_RED_CLEAR (rmod 5 CYCLE) = (GREEN, RED) \<and>
   1920 * PHYSICS_DT = CYCLE \<and>
   (\<exists>lts cars.
      run_ticks 1920 network (\<lambda>m i. 0) (\<lambda>m i. 0) (build_lights (\<lambda>x z. 0) (\<lambda>x z. 1 / 2), [])
        = Some (lts, cars) \<and>
      length lts = 9 \<and>
      list_all (\<lambda>(k, l). (signal_of_color (meshNS l), signal_of_color (meshEW l)) = (GREEN, RED)) lts)"
proof -
  let ?b = "build_lights (\<lambda>x z. 0) (\<lambda>x z. 1 / 2)"
  have len: "length ?b = 9" unfolding build_lights_eval by simp
  have a: "list_all (\<lambda>(k, l). timer l = 5 \<and>
              (signal_of_color (meshNS l), signal_of_color (meshEW l)) = (RED, GREEN)) ?b"
    unfolding build_lights_eval
    by (simp add: new_light_def signal_of_color_def LIGHT_defs)
  have "rmod 5 CYCLE = 5" by (simp add: rmod_def T_defs)
  then have b: "spec_phase_table T_GREEN T_YELLOW T_RED_CLEAR (rmod 5 CYCLE) = (GREEN, RED)"
    by (simp add: spec_phase_table_def T_defs)
  have c: "1920 * PHYSICS_DT = CYCLE" by (simp add: PHYSICS_DT_def PHYSICS_HZ_def T_defs)
  have t: "timer (new_light k 0 (1 / 2)) + real 1920 * PHYSICS_DT = 37" for k
    by (simp add: new_light_def PHYSICS_DT_def PHYSICS_HZ_def)
  have r: "js_rem 37 CYCLE = 5" by (simp add: js_rem_def js_trunc_def T_defs)
  have s: "signal_colors 5 = (LIGHT_GREEN, LIGHT_RED)" by (simp add: signal_colors_def T_defs)
  have e: "(meshNS (light_after 1920 (new_light k 0 (1 / 2))),
            meshEW (light_after 1920 (new_light k 0 (1 / 2)))) = (LIGHT_GREEN, LIGHT_RED)" for k
    using light_after_colors_pos[of 1920 "new_light k 0 (1 / 2)"] unfolding t r s by simp
  have f: "(signal_of_color (meshNS (light_after 1920 (new_light k 0 (1 / 2)))),
            signal_of_color (meshEW (light_after 1920 (new_light k 0 (1 / 2))))) = (GREEN, RED)" for k
    using e[of k] by (simp add: signal_of_color_def LIGHT_defs)
  let ?lts = "map (\<lambda>(k, l). (k, light_after 1920 l)) ?b"
  have run: "run_ticks 1920 network (\<lambda>m i. 0) (\<lambda>m i. 0) (?b, []) = Some (?lts, [])"
    unfolding run_ticks_no_cars updateTrafficLights_pow by simp
  have l2: "length ?lts = 9" using len by simp
  have g: "list_all (\<lambda>(k, l). (signal_of_color (meshNS l), signal_of_color (meshEW l)) = (GREEN, RED)) ?lts"
    unfolding build_lights_eval using f by simp
  show ?thesis using len a b c run l2 g by blast
qed

text \<open>
  Claim C8, amended. With \<open>T = 2 (G + Y + R) = 32\<close>: after any positive number of ticks,
  from any state in which no timer is negative (the built state is one), the pair of
  colours every intersection shows is the entry of the six-phase table at its stored
  \<open>timer mod T\<close>. Hence any two lights, each after a tick, whose stored timers are equal
  modulo \<open>T\<close>, in particular whose timers differ by \<open>T\<close>, show the same colours. The
  statement is about the timer the light stores and holds for every value of it; it
  does not say which value the sum \<^verbatim>\<open>timer += dt\<close> has reached after a given number of
  ticks. Before the first tick the heads show the colours they were created with.
\<close>

theorem signal_table:
  assumes "run_ticks (Suc n) ls r_target r_respawn (lts0, cars0) = Some (lts, cars)"
    and "run_ticks (Suc n') ls' r_target' r_respawn' (lts0', cars0') = Some (lts', cars')"
    and "list_all (\<lambda>(k, l). 0 \<le> timer l) lts0" and "list_all (\<lambda>(k, l). 0 \<le> timer l) lts0'"
    and "(k, l) \<in> set lts" and "(k', l') \<in> set lts'"
  shows "CYCLE = 2 * (T_GREEN + T_YELLOW + T_RED_CLEAR) \<and> CYCLE = 32 \<and>
         (signal_of_color (meshNS l), signal_of_color (meshEW l))
           = spec_phase_table T_GREEN T_YELLOW T_RED_CLEAR (rmod (timer l) CYCLE) \<and>
         (rmod (timer l') CYCLE = rmod (timer l) CYCLE \<longrightarrow> (meshNS l', meshEW l') = (meshNS l, meshEW l)) \<and>
         (timer l' = timer l + CYCLE \<longrightarrow> (meshNS l', meshEW l') = (meshNS l, meshEW l))"
proof -
  have c: "0 < CYCLE" "CYCLE = 32" "CYCLE = 2 * (T_GREEN + T_YELLOW + T_RED_CLEAR)"
    by (simp_all add: T_defs)
  from run_ticks_entry[OF assms(1,3,5)]
  obtain l1 where l1: "0 \<le> timer l1 + PHYSICS_DT" "l = update_light PHYSICS_DT l1" by blast
  from run_ticks_entry[OF assms(2,4,6)]
  obtain l2 where l2: "0 \<le> timer l2 + PHYSICS_DT" "l' = update_light PHYSICS_DT l2" by blast
  have col: "(meshNS l, meshEW l) = signal_colors (rmod (timer l) CYCLE)"
    unfolding l1(2) by (rule update_light_table(1)[OF l1(1)])
  have col': "(meshNS l', meshEW l') = signal_colors (rmod (timer l') CYCLE)"
    unfolding l2(2) by (rule update_light_table(1)[OF l2(1)])
  have tab: "(signal_of_color (meshNS l), signal_of_color (meshEW l))
           = spec_phase_table T_GREEN T_YELLOW T_RED_CLEAR (rmod (timer l) CYCLE)"
    unfolding l1(2) by (rule update_light_table(2)[OF l1(1)])
  have fn: "(meshNS l', meshEW l') = (meshNS l, meshEW l)" if "rmod (timer l') CYCLE = rmod (timer l) CYCLE"
    using col col' that by simp
  have per: "(meshNS l', meshEW l') = (meshNS l, meshEW l)" if "timer l' = timer l + CYCLE"
    using fn rmod_period[OF c(1), of "timer l"] that by simp
  show ?thesis using c(2,3) tab fn per by blast
qed

theorem signal_table_witness:
  "run_ticks (Suc 0) network (\<lambda>m i. 0) (\<lambda>m i. 0) (build_lights (\<lambda>x z. 0) (\<lambda>x z. 1 / 4), [])
     = Some (updateTrafficLights PHYSICS_DT (build_lights (\<lambda>x z. 0) (\<lambda>x z. 1 / 4)), []) \<and>
   run_ticks (Suc 0) network (\<lambda>m i. 0) (\<lambda>m i. 0)
       ([(''1_1'', (new_light ''1_1'' 0 (1 / 4))\<lparr>timer := 69 / 2\<rparr>)], [])
     = Some ([(''1_1'', update_light PHYSICS_DT ((new_light ''1_1'' 0 (1 / 4))\<lparr>timer := 69 / 2\<rparr>))], []) \<and>
   list_all (\<lambda>(k, l). 0 \<le> timer l) (build_lights (\<lambda>x z. 0) (\<lambda>x z. 1 / 4)) \<and>
   (''1_1'', update_light PHYSICS_DT (new_light ''1_1'' 0 (1 / 4)))
     \<in> set (updateTrafficLights PHYSICS_DT (build_lights (\<lambda>x z. 0) (\<lambda>x z. 1 / 4))) \<and>
   timer (update_light PHYSICS_DT ((new_light ''1_1'' 0 (1 / 4))\<lparr>timer := 69 / 2\<rparr>))
     = timer (update_light PHYSICS_DT (new_light ''1_1'' 0 (1 / 4))) + CYCLE \<and>
   CYCLE = 32 \<and>
   (signal_of_color (meshNS (update_light PHYSICS_DT (new_light ''1_1'' 0 (1 / 4)))),
    signal_of_color (meshEW (update_light PHYSICS_DT (new_light ''1_1'' 0 (1 / 4)))))
     = spec_phase_table T_GREEN T_YELLOW T_RED_CLEAR
         (rmod (timer (update_light PHYSICS_DT (new_light ''1_1'' 0 (1 / 4)))) CYCLE) \<and>
   (meshNS (update_light PHYSICS_DT ((new_light ''1_1'' 0 (1 / 4))\<lparr>timer := 69 / 2\<rparr>)),
    meshEW (update_light PHYSICS_DT ((new_light ''1_1'' 0 (1 / 4))\<lparr>timer := 69 / 2\<rparr>)))
     = (meshNS (update_light PHYSICS_DT (new_light ''1_1'' 0 (1 / 4))),
        meshEW (update_light PHYSICS_DT (new_light ''1_1'' 0 (1 / 4))))"
proof -
  let ?b = "build_lights (\<lambda>x z. 0) (\<lambda>x z. 1 / 4)"
  let ?l0 = "new_light ''1_1'' 0 (1 / 4)"
  let ?l1 = "?l0\<lparr>timer := 69 / 2\<rparr>"
  have r1: "run_ticks (Suc 0) network (\<lambda>m i. 0) (\<lambda>m i. 0) (?b, [])
              = Some (updateTrafficLights PHYSICS_DT ?b, [])"
    by (simp add: updatePhysics_def pass1_def pass2_def carsByLane_def Let_def)
  have r2: "run_ticks (Suc 0) network (\<lambda>m i. 0) (\<lambda>m i. 0) ([(''1_1'', ?l1)], [])
              = Some ([(''1_1'', update_light PHYSICS_DT ?l1)], [])"
    by (simp add: updatePhysics_def pass1_def pass2_def carsByLane_def Let_def updateTrafficLights_def)
  have n1: "list_all (\<lambda>(k, l). 0 \<le> timer l) ?b"
    unfolding build_lights_eval by (simp add: new_light_def)
  have n2: "list_all (\<lambda>(k, l). 0 \<le> timer l) [(''1_1'', ?l1)]" by simp
  have m1: "(''1_1'', update_light PHYSICS_DT ?l0) \<in> set (updateTrafficLights PHYSICS_DT ?b)"
    unfolding build_lights_eval by (simp add: updateTrafficLights_def node_id_def digit_char_def)
  have m2: "(''1_1'', update_light PHYSICS_DT ?l1) \<in> set [(''1_1'', update_light PHYSICS_DT ?l1)]"
    by simp
  have t: "timer (update_light PHYSICS_DT ?l1) = timer (update_light PHYSICS_DT ?l0) + CYCLE"
    by (simp add: update_light_timer new_light_def T_defs)
  from signal_table[OF r1 r2 n1 n2 m1 m2] r1 r2 n1 m1 t show ?thesis by simp
qed

text \<open>
  Claim C4, as the specification states it: the initial timer is a random offset that
  spans the full cycle. It fails: the draw \<open>1/2\<close> gives the timer 5, not half a cycle,
  and no draw gives the timer 20.
\<close>

theorem initial_timer_counterexample:
  "timer (new_light ''0_0'' 0 (1 / 2)) \<noteq> (1 / 2) * CYCLE \<and>
   \<not> (\<exists>r. 0 \<le> r \<and> r < 1 \<and> timer (new_light ''0_0'' 0 r) = 20)"
  by (simp add: new_light_def T_defs)

text \<open>
  Claim C4, amended: every intersection the builder creates has a timer drawn from
  \<open>[0, 10)\<close>, which is the first window \<open>[0, G)\<close> of the 32 second cycle, and every
  value of that window is the timer of some draw.
\<close>

theorem initial_timer_range:
  assumes "\<And>x z. 0 \<le> r_timer x z \<and> r_timer x z < 1"
  shows "(\<forall>(k, l) \<in> set (build_lights r_phase r_timer). 0 \<le> timer l \<and> timer l < T_GREEN) \<and>
         length (build_lights r_phase r_timer) = GRID_SIZE * GRID_SIZE \<and>
         T_GREEN = 10 \<and> T_GREEN < CYCLE \<and>
         (\<forall>x. 0 \<le> x \<and> x < T_GREEN \<longrightarrow> (\<exists>r. 0 \<le> r \<and> r < 1 \<and> timer (new_light nid r_p r) = x))"
proof -
  have sur: "\<exists>r. 0 \<le> r \<and> r < 1 \<and> timer (new_light nid r_p r) = x" if "0 \<le> x \<and> x < T_GREEN" for x
    using that by (intro exI[of _ "x / 10"]) (simp add: new_light_def T_defs)
  have t: "0 \<le> timer (new_light k p (r_timer x z)) \<and> timer (new_light k p (r_timer x z)) < T_GREEN"
    for k p x z
    using assms[of x z] by (simp add: new_light_def T_defs)
  have b: "build_lights r_phase r_timer =
      [(node_id x z, new_light (node_id x z) (r_phase x z) (r_timer x z)). x \<leftarrow> [0, Suc 0, Suc (Suc 0)],
          z \<leftarrow> [0, Suc 0, Suc (Suc 0)]]"
    by (simp add: build_lights_def GRID_SIZE_def upt_rec node_id_def digit_char_def)
  have "\<forall>(k, l) \<in> set (build_lights r_phase r_timer). 0 \<le> timer l \<and> timer l < T_GREEN"
    unfolding b using t by simp
  moreover have "length (build_lights r_phase r_timer) = GRID_SIZE * GRID_SIZE"
    unfolding b by (simp add: GRID_SIZE_def)
  moreover have "T_GREEN = 10 \<and> T_GREEN < CYCLE" by (simp add: T_defs)
  ultimately show ?thesis using sur by blast
qed

theorem initial_timer_range_witness:
  "list_all (\<lambda>(k, l). 0 \<le> timer l \<and> timer l < T_GREEN) (build_lights (\<lambda>x z. 1 / 2) (\<lambda>x z. 3 / 4)) \<and>
   length (build_lights (\<lambda>x z. 1 / 2) (\<lambda>x z. 3 / 4)) = GRID_SIZE * GRID_SIZE \<and>
   T_GREEN = 10 \<and> T_GREEN < CYCLE"
proof -
  have "\<And>x z::nat. (0::real) \<le> 3 / 4 \<and> (3 / 4::real) < 1" by simp
  from initial_timer_range[of "\<lambda>x z. 3 / 4" "\<lambda>x z. 1 / 2" "''0_0''" 0, OF this]
  show ?thesis unfolding list_all_iff by blast
qed

section \<open>Car following: the worked scenario\<close>

lemma sqrt_IDM_bounds: "1936 / 1000 < sqrt (IDM_A * IDM_B)" "sqrt (IDM_A * IDM_B) < 1937 / 1000"
proof -
  have e: "IDM_A * IDM_B = 375 / 100" by (simp add: IDM_defs)
  show "1936 / 1000 < sqrt (IDM_A * IDM_B)"
    unfolding e by (rule real_less_rsqrt) (simp add: power2_eq_square)
  show "sqrt (IDM_A * IDM_B) < 1937 / 1000"
    unfolding e by (rule real_less_lsqrt) (simp_all add: power2_eq_square)
qed

lemma scenario_gap: "leader_gap 50 0 = 454 / 10" "leader_dv 14 10 = 4"
  by (simp_all add: leader_gap_def leader_dv_def CAR_LENGTH_def)

lemma scenario_s_star_eq: "s_star 14 4 = 254 / 10 + 28 / sqrt (IDM_A * IDM_B)"
proof -
  have "0 < sqrt (IDM_A * IDM_B)" using sqrt_IDM_bounds(1) by linarith
  then have "0 \<le> 14 * IDM_T + (14 * 4) / (2 * sqrt (IDM_A * IDM_B))"
    by (simp add: IDM_defs)
  then show ?thesis
    unfolding s_star_def by (simp add: IDM_S0_def IDM_T_def max_def)
qed

lemma scenario_s_star_bounds: "3985 / 100 < s_star 14 4" "s_star 14 4 < 3987 / 100"
proof -
  define q where "q = sqrt (IDM_A * IDM_B)"
  have q: "1936 / 1000 < q" "q < 1937 / 1000"
    unfolding q_def by (rule sqrt_IDM_bounds)+
  then have qpos: "0 < q" by linarith
  have "28 / q < 28 / (1936 / 1000)"
    using q qpos by (simp add: field_simps)
  moreover have "28 / (1937 / 1000) < 28 / q"
    using q qpos by (simp add: field_simps)
  ultimately show "3985 / 100 < s_star 14 4" "s_star 14 4 < 3987 / 100"
    unfolding scenario_s_star_eq q_def[symmetric] by simp_all
qed

lemma scenario_acc_bounds:
  "- (116 / 100) < idm_acc 14 4 (454 / 10)" "idm_acc 14 4 (454 / 10) < - (115 / 100)"
proof -
  let ?s = "s_star 14 4"
  have s: "3985 / 100 < ?s" "?s < 3987 / 100" by (rule scenario_s_star_bounds)+
  have e: "idm_acc 14 4 (454 / 10) = - (15 / 10) * (?s / (454 / 10))\<^sup>2"
    by (simp add: idm_acc_def IDM_A_def IDM_V0_def max_def)
  have lo: "(3985 / 100 / (454 / 10))\<^sup>2 < (?s / (454 / 10))\<^sup>2"
    using s by (intro power_strict_mono) simp_all
  have hi: "(?s / (454 / 10))\<^sup>2 < (3987 / 100 / (454 / 10))\<^sup>2"
    using s by (intro power_strict_mono) simp_all
  have lo': "(77 / 100 :: real) < (3985 / 100 / (454 / 10))\<^sup>2" by (simp add: power2_eq_square)
  have hi': "(3987 / 100 / (454 / 10))\<^sup>2 < (772 / 1000 :: real)" by (simp add: power2_eq_square)
  show "- (116 / 100) < idm_acc 14 4 (454 / 10)" unfolding e using hi hi' by simp
  show "idm_acc 14 4 (454 / 10) < - (115 / 100)" unfolding e using lo lo' by simp
qed

text \<open>
  Claim C5, as the specification states it: for the leader at \<open>t = 50, v = 10\<close> and the
  follower at \<open>t = 0, v = 14\<close> the computation gives the gap 45.4, the closing speed 4,
  the desired spacing 45.8 and an acceleration of about -1.53. The spacing and the
  acceleration are not what the code computes: the claim fails even when each printed
  value is read with the tolerance of its last digit.
\<close>

theorem scenario_counterexample:
  "\<not> (leader_gap 50 0 = 454 / 10 \<and> leader_dv 14 10 = 4 \<and>
      \<bar>s_star 14 (leader_dv 14 10) - 458 / 10\<bar> \<le> 5 / 100 \<and>
      \<bar>idm_acc 14 (leader_dv 14 10) (leader_gap 50 0) - (- (153 / 100))\<bar> \<le> 5 / 1000)"
  using scenario_s_star_bounds(2) unfolding scenario_gap by simp

text \<open>
  Claim C5, amended: the gap is 45.4 and the closing speed 4, the desired spacing is
  \<open>25.4 + 28 / \<surd>3.75\<close>, between 39.85 and 39.87, and the acceleration lies between
  -1.16 and -1.15.
\<close>

theorem scenario_values:
  "leader_gap 50 0 = 454 / 10 \<and> leader_dv 14 10 = 4 \<and>
   s_star 14 (leader_dv 14 10) = 254 / 10 + 28 / sqrt (375 / 100) \<and>
   3985 / 100 < s_star 14 (leader_dv 14 10) \<and> s_star 14 (leader_dv 14 10) < 3987 / 100 \<and>
   - (116 / 100) < idm_acc 14 (leader_dv 14 10) (leader_gap 50 0) \<and>
   idm_acc 14 (leader_dv 14 10) (leader_gap 50 0) < - (115 / 100)"
proof -
  have "IDM_A * IDM_B = 375 / 100" by (simp add: IDM_defs)
  then have "s_star 14 4 = 254 / 10 + 28 / sqrt (375 / 100)"
    using scenario_s_star_eq by simp
  then show ?thesis
    unfolding scenario_gap using scenario_s_star_bounds scenario_acc_bounds by simp
qed

section \<open>The tick: iteration over the car array\<close>

lemma forEach_append:
  "forEach f (xs @ ys) s = (case forEach f xs s of None \<Rightarrow> None | Some s' \<Rightarrow> forEach f ys s')"
  by (induction xs arbitrary: s) (auto split: option.splits)

lemma forEach_pointwise_aux:
  assumes step: "\<And>i s. i < n \<Longrightarrow> length s = n \<Longrightarrow> (\<forall>j<i. Q (s ! j)) \<Longrightarrow> (\<forall>j. i \<le> j \<and> j < n \<longrightarrow> P (s ! j))
                  \<Longrightarrow> \<exists>c. f i s = Some (s[i := c]) \<and> Q c"
  shows "k \<le> n \<Longrightarrow> length s = n \<Longrightarrow> (\<forall>j<n - k. Q (s ! j)) \<Longrightarrow> (\<forall>j. n - k \<le> j \<and> j < n \<longrightarrow> P (s ! j))
         \<Longrightarrow> \<exists>s'. forEach f [n - k..<n] s = Some s' \<and> length s' = n \<and> (\<forall>j<n. Q (s' ! j))"
proof (induction k arbitrary: s)
  case 0
  then show ?case by simp
next
  case (Suc k)
  let ?i = "n - Suc k"
  have i: "?i < n" using Suc.prems(1) by simp
  obtain c where c: "f ?i s = Some (s[?i := c])" "Q c"
    using step[OF i Suc.prems(2) Suc.prems(3) Suc.prems(4)] by blast
  have upt: "[?i..<n] = ?i # [n - k..<n]"
    using Suc.prems(1) by (simp add: upt_conv_Cons Suc_diff_Suc)
  have nk: "n - k = Suc ?i" using Suc.prems(1) by simp
  have "\<exists>s'. forEach f [n - k..<n] (s[?i := c]) = Some s' \<and> length s' = n \<and> (\<forall>j<n. Q (s' ! j))"
  proof (rule Suc.IH)
    show "k \<le> n" using Suc.prems(1) by simp
    show "length (s[?i := c]) = n" using Suc.prems(2) by simp
    show "\<forall>j<n - k. Q (s[?i := c] ! j)"
      using Suc.prems(2,3) c(2) i unfolding nk
      by (auto simp: nth_list_update less_Suc_eq)
    show "\<forall>j. n - k \<le> j \<and> j < n \<longrightarrow> P (s[?i := c] ! j)"
      using Suc.prems(2,4) unfolding nk by (auto simp: nth_list_update)
  qed
  then show ?case unfolding upt using c(1) by simp
qed

lemma forEach_pointwise:
  assumes "\<And>i s. i < n \<Longrightarrow> length s = n \<Longrightarrow> (\<forall>j<i. Q (s ! j)) \<Longrightarrow> (\<forall>j. i \<le> j \<and> j < n \<longrightarrow> P (s ! j))
                  \<Longrightarrow> \<exists>c. f i s = Some (s[i := c]) \<and> Q c"
    and "length s = n" and "\<forall>j<n. P (s ! j)"
  shows "\<exists>s'. forEach f [0..<n] s = Some s' \<and> length s' = n \<and> (\<forall>j<n. Q (s' ! j))"
  using forEach_pointwise_aux[of n Q P f n s] assms by simp

section \<open>The tick keeps every car on its lane\<close>

lemma rnd_index_less: "0 \<le> r \<Longrightarrow> r < 1 \<Longrightarrow> 0 < n \<Longrightarrow> rnd_index r n < n"
proof -
  assume r: "0 \<le> r" "r < 1" and n: "0 < n"
  have "r * real n < real n" using r n by simp
  then have "\<lfloor>r * real n\<rfloor> < int n" by (simp add: floor_less_iff)
  moreover have "0 \<le> \<lfloor>r * real n\<rfloor>" using r by simp
  ultimately show ?thesis unfolding rnd_index_def by linarith
qed

lemma wf_net_lookup:
  assumes "wf_net ls" "map_of ls k = Some l"
  shows "k \<noteq> []" "lane_id l = k" "V_MAX * PHYSICS_DT < len l"
        "\<And>x. x \<in> set (nextLanes l) \<Longrightarrow> \<exists>l'. map_of ls x = Some l'"
proof -
  have m: "(k, l) \<in> set ls" using assms(2) by (rule map_of_SomeD)
  with assms(1) have p: "k \<noteq> [] \<and> lane_id l = k \<and> V_MAX * PHYSICS_DT < len l \<and>
      list_all (\<lambda>x. x \<in> set (map fst ls)) (nextLanes l)"
    unfolding wf_net_def list_all_iff by fastforce
  then show "k \<noteq> []" "lane_id l = k" "V_MAX * PHYSICS_DT < len l" by simp_all
  fix x assume "x \<in> set (nextLanes l)"
  with p have "x \<in> fst ` set ls" by (simp add: list_all_iff)
  then show "\<exists>l'. map_of ls x = Some l'"
    by (metis domD dom_map_of_conv_image_fst)
qed

lemma wf_net_key_nonempty:
  assumes "wf_net ls" "map_of ls x = Some l" shows "truthy (Some x)"
  using wf_net_lookup(1)[OF assms] by (simp add: truthy_def)

lemma V_MAX_pos: "0 < V_MAX" "0 < PHYSICS_DT" "0 < V_MAX * PHYSICS_DT"
  by (simp_all add: V_MAX_def IDM_V0_def IDM_A_def PHYSICS_DT_def PHYSICS_HZ_def)

lemma car_ok_lane:
  assumes "car_ok ls c"
  obtains k lane where "laneId c = Some k" "map_of ls k = Some lane"
    "0 \<le> car_t c" "car_t c < len lane" "0 \<le> car_v c" "car_v c \<le> V_MAX"
    "targetLaneId c = None \<or> (\<exists>x. targetLaneId c = Some x \<and> x \<in> set (nextLanes lane))"
  using assms unfolding car_ok_def lanes_get_def
  by (auto split: option.splits)

lemma car_okI:
  assumes "laneId c = Some k" "map_of ls k = Some lane"
    "0 \<le> car_t c" "car_t c < len lane" "0 \<le> car_v c" "car_v c \<le> V_MAX"
    "targetLaneId c = None \<or> (\<exists>x. targetLaneId c = Some x \<and> x \<in> set (nextLanes lane))"
  shows "car_ok ls c"
  using assms unfolding car_ok_def lanes_get_def by (auto split: option.splits)

lemma commit_road_ok:
  assumes "car_ok ls car" "lanes_get ls (laneId car) = Some lane" "0 \<le> r" "r < 1"
  shows "car_ok ls (commit_road r lane car)"
proof (cases "\<not> truthy (targetLaneId car) \<and> length (nextLanes lane) > 0")
  case True
  then have "rnd_index r (length (nextLanes lane)) < length (nextLanes lane)"
    using rnd_index_less assms(3,4) by blast
  then show ?thesis
    using assms(1,2) True unfolding commit_road_def car_ok_def nth_opt_def by simp
next
  case False
  then show ?thesis using assms(1) unfolding commit_road_def by auto
qed

lemma commit_junction_ok:
  assumes "car_ok ls car" "lanes_get ls (laneId car) = Some lane"
  shows "car_ok ls (commit_junction lane car)"
  using assms unfolding commit_junction_def car_ok_def nth_opt_def by auto

lemma front_gap_car:
  "snd (snd (front_gap lts byLane r cars lane car)) \<in> {car, commit_road r lane car, commit_junction lane car}"
  unfolding front_gap_def Let_def by (auto split: option.splits)

lemma perceive_ok:
  assumes ok: "car_ok ls (cars ! i)" and r: "0 \<le> r" "r < 1"
  shows "\<exists>gap dv c1. perceive ls lts byLane r i cars = Some (gap, dv, c1) \<and> car_ok ls c1"
proof -
  let ?car = "cars ! i"
  from ok obtain lane where get: "lanes_get ls (laneId ?car) = Some lane"
    unfolding car_ok_def by (auto split: option.splits)
  show ?thesis
  proof (cases "leader_of (byLane (laneId ?car)) i")
    case (Some j)
    then show ?thesis using ok by (simp add: perceive_def Let_def)
  next
    case None
    obtain gap dv c1 where f: "front_gap lts byLane r cars lane ?car = (gap, dv, c1)"
      by (metis prod_cases3)
    have "c1 \<in> {?car, commit_road r lane ?car, commit_junction lane ?car}"
      using front_gap_car[of lts byLane r cars lane ?car] unfolding f by simp
    then have "car_ok ls c1"
      using ok commit_road_ok[OF ok get r] commit_junction_ok[OF ok get] by auto
    then show ?thesis
      using None get f by (simp add: perceive_def Let_def)
  qed
qed

lemma idm_acc_le: "idm_acc v dv gap \<le> IDM_A * (1 - (v / IDM_V0) ^ 4)"
proof -
  have "0 \<le> (s_star v dv / max (1 / 10) gap) ^ 2" by simp
  then show ?thesis unfolding idm_acc_def by (simp add: IDM_A_def)
qed

lemma decide_ok:
  assumes "car_ok ls c1"
  shows "car_ok ls (decide (gap, dv, c1)) \<and> acc_ok (decide (gap, dv, c1))"
proof (cases "gap < MIN_GAP")
  case True
  then have d: "decide (gap, dv, c1) = c1\<lparr>car_v := 0, car_a := - IDM_B * 4\<rparr>"
    by (simp add: decide_def)
  have "car_ok ls (c1\<lparr>car_v := 0, car_a := - IDM_B * 4\<rparr>)"
    using assms V_MAX_pos(1) unfolding car_ok_def by (auto split: option.splits)
  moreover have "acc_ok (c1\<lparr>car_v := 0, car_a := - IDM_B * 4\<rparr>)"
    by (simp add: acc_ok_def IDM_B_def)
  ultimately show ?thesis unfolding d by simp
next
  case False
  then have d: "decide (gap, dv, c1) = c1\<lparr>car_a := idm_acc (car_v c1) dv gap\<rparr>"
    by (simp add: decide_def Let_def)
  have "car_ok ls (c1\<lparr>car_a := idm_acc (car_v c1) dv gap\<rparr>)"
    using assms unfolding car_ok_def by (auto split: option.splits)
  moreover have "acc_ok (c1\<lparr>car_a := idm_acc (car_v c1) dv gap\<rparr>)"
    using idm_acc_le by (simp add: acc_ok_def)
  ultimately show ?thesis unfolding d by simp
qed

lemma pass1_step_ok:
  assumes "car_ok ls (cars ! i)" "0 \<le> r_target (car_id (cars ! i))" "r_target (car_id (cars ! i)) < 1"
  shows "\<exists>c. pass1_step ls lts byLane r_target i cars = Some (cars[i := c]) \<and> car_ok ls c \<and> acc_ok c"
proof -
  obtain gap dv c1 where p: "perceive ls lts byLane (r_target (car_id (cars ! i))) i cars = Some (gap, dv, c1)"
      and c1: "car_ok ls c1"
    using perceive_ok[OF assms] by blast
  have "car_ok ls (decide (gap, dv, c1)) \<and> acc_ok (decide (gap, dv, c1))"
    by (rule decide_ok[OF c1])
  then show ?thesis
    unfolding pass1_step_def p by (intro exI[of _ "decide (gap, dv, c1)"]) simp
qed

lemma speed_step:
  assumes v: "0 \<le> v" "v \<le> V_MAX" and a: "a \<le> IDM_A * (1 - (v / IDM_V0) ^ 4)"
  shows "max 0 (v + a * PHYSICS_DT) \<le> V_MAX"
proof (cases "v \<le> IDM_V0")
  case True
  define q where "q = (v / IDM_V0) ^ 4"
  have "0 \<le> q" unfolding q_def by simp
  moreover have "a \<le> IDM_A * (1 - q)" using a unfolding q_def .
  ultimately have "a \<le> IDM_A" unfolding IDM_A_def by argo
  then have "a * PHYSICS_DT \<le> IDM_A * PHYSICS_DT"
    using V_MAX_pos(2) by (simp add: mult_right_mono)
  then show ?thesis using True V_MAX_pos(1) by (simp add: V_MAX_def)
next
  case False
  then have "1 < v / IDM_V0" by (simp add: IDM_V0_def)
  then have "1 < (v / IDM_V0) ^ 4" by (simp add: one_less_power)
  then have "a < 0" using a unfolding IDM_A_def by argo
  then have "a * PHYSICS_DT < 0" using V_MAX_pos(2) by (simp add: mult_neg_pos)
  then show ?thesis using v by simp
qed

lemma respawn_key:
  assumes wf: "wf_net ls" and r: "0 \<le> r" "r < 1"
  defines "keys \<equiv> filter (\<lambda>k. startsWith k ''R_'') (map fst ls)"
  shows "\<exists>k l. nth_opt keys (rnd_index r (length keys)) = Some k \<and> map_of ls k = Some l"
proof -
  have "keys \<noteq> []"
    using wf unfolding wf_net_def keys_def list_ex_iff by (auto simp: filter_empty_conv)
  then have "rnd_index r (length keys) < length keys"
    using rnd_index_less[OF r] by simp
  moreover from this have "keys ! rnd_index r (length keys) \<in> set keys" by simp
  then have "keys ! rnd_index r (length keys) \<in> fst ` set ls" unfolding keys_def by auto
  then have "\<exists>l. map_of ls (keys ! rnd_index r (length keys)) = Some l"
    by (metis domD dom_map_of_conv_image_fst)
  ultimately show ?thesis by (simp add: nth_opt_def)
qed

lemma integrate_ok:
  assumes wf: "wf_net ls" and ok: "car_ok ls c" and acc: "acc_ok c" and r: "0 \<le> r" "r < 1"
  shows "\<exists>c'. integrate PHYSICS_DT ls r c = Some c' \<and> car_ok ls c'"
proof -
  from ok obtain k lane where L: "laneId c = Some k" "map_of ls k = Some lane"
    "0 \<le> car_t c" "car_t c < len lane" "0 \<le> car_v c" "car_v c \<le> V_MAX"
    "targetLaneId c = None \<or> (\<exists>x. targetLaneId c = Some x \<and> x \<in> set (nextLanes lane))"
    by (rule car_ok_lane)
  define a1 where "a1 = (if car_v c = 0 \<and> car_a c < 0 then 0 else car_a c)"
  define v1 where "v1 = max 0 (car_v c + a1 * PHYSICS_DT)"
  define t1 where "t1 = car_t c + v1 * PHYSICS_DT"
  define c4 where "c4 = c\<lparr>car_a := a1, car_v := v1, car_t := t1\<rparr>"
  have a1: "a1 \<le> IDM_A * (1 - (car_v c / IDM_V0) ^ 4)"
    using acc unfolding a1_def acc_ok_def by (auto simp: IDM_A_def IDM_V0_def)
  have v1: "0 \<le> v1" "v1 \<le> V_MAX"
    unfolding v1_def using speed_step[OF L(5,6) a1] by simp_all
  have t1: "car_t c \<le> t1" "t1 < len lane + V_MAX * PHYSICS_DT"
  proof -
    have "0 \<le> v1 * PHYSICS_DT" using v1(1) V_MAX_pos(2) by simp
    then show "car_t c \<le> t1" unfolding t1_def by simp
    have "v1 * PHYSICS_DT \<le> V_MAX * PHYSICS_DT"
      using v1(2) V_MAX_pos(2) by (simp add: mult_right_mono)
    then show "t1 < len lane + V_MAX * PHYSICS_DT" unfolding t1_def using L(4) by simp
  qed
  define keys where "keys = filter (\<lambda>k. startsWith k ''R_'') (map fst ls)"
  define c5 where "c5 =
     (if t1 \<ge> len lane then
        (if truthy (targetLaneId c) then
           c4\<lparr>car_t := t1 - len lane, laneId := targetLaneId c, targetLaneId := None\<rparr>
         else c4\<lparr>car_t := 0, laneId := nth_opt keys (rnd_index r (length keys))\<rparr>)
      else c4)"
  have int: "integrate PHYSICS_DT ls r c = Some (c5\<lparr>color := car_color c5\<rparr>)"
    unfolding integrate_def Let_def c5_def c4_def keys_def t1_def v1_def a1_def
    using L(1,2) by (auto simp: lanes_get_def)
  have "car_ok ls c5"
  proof (cases "t1 \<ge> len lane")
    case False
    then have "c5 = c4" by (simp add: c5_def)
    then show ?thesis
      using L False t1 v1 unfolding c4_def
      by (intro car_okI[where k=k and lane=lane]) simp_all
  next
    case True
    show ?thesis
    proof (cases "truthy (targetLaneId c)")
      case tr: True
      then obtain x where x: "targetLaneId c = Some x" "x \<in> set (nextLanes lane)"
        using L(7) by (auto simp: truthy_def)
      obtain l' where l': "map_of ls x = Some l'"
        using wf_net_lookup(4)[OF wf L(2) x(2)] by blast
      have "V_MAX * PHYSICS_DT < len l'" by (rule wf_net_lookup(3)[OF wf l'])
      then have "t1 - len lane < len l'" using t1(2) by simp
      moreover have "c5 = c4\<lparr>car_t := t1 - len lane, laneId := Some x, targetLaneId := None\<rparr>"
        using True tr x by (simp add: c5_def)
      ultimately show ?thesis
        using True l' v1 unfolding c4_def
        by (intro car_okI[where k=x and lane=l']) simp_all
    next
      case fl: False
      have none: "targetLaneId c = None"
      proof (rule ccontr)
        assume "targetLaneId c \<noteq> None"
        then obtain x where x: "targetLaneId c = Some x" "x \<in> set (nextLanes lane)"
          using L(7) by auto
        obtain l' where "map_of ls x = Some l'"
          using wf_net_lookup(4)[OF wf L(2) x(2)] by blast
        then have "truthy (Some x)" by (rule wf_net_key_nonempty[OF wf])
        then show False using fl x by simp
      qed
      obtain k' l' where k': "nth_opt keys (rnd_index r (length keys)) = Some k'" "map_of ls k' = Some l'"
        using respawn_key[OF wf r] unfolding keys_def by blast
      have "0 < len l'"
        using wf_net_lookup(3)[OF wf k'(2)] V_MAX_pos(3) by linarith
      moreover have "c5 = c4\<lparr>car_t := 0, laneId := Some k'\<rparr>"
        using True fl k' by (simp add: c5_def)
      ultimately show ?thesis
        using k' v1 none unfolding c4_def
        by (intro car_okI[where k=k' and lane=l']) simp_all
    qed
  qed
  moreover have "car_ok ls (c5\<lparr>color := x\<rparr>) = car_ok ls c5" for x
    by (simp add: car_ok_def split: option.splits)
  ultimately have "car_ok ls (c5\<lparr>color := car_color c5\<rparr>)" by simp
  with int show ?thesis by blast
qed

section \<open>Pass 1 reads positions from the snapshot\<close>

lemma forEach_untouched:
  assumes "forEach f js s = Some s'"
    and "\<And>j u u'. j \<in> set js \<Longrightarrow> f j u = Some u' \<Longrightarrow> R u u'"
    and "\<And>u. R u u" and "\<And>u v w. R u v \<Longrightarrow> R v w \<Longrightarrow> R u w"
  shows "R s s'"
  using assms(1,2)
proof (induction js arbitrary: s)
  case Nil
  then show ?case using assms(3) by simp
next
  case (Cons j js)
  from Cons.prems(1) obtain u where u: "f j s = Some u" "forEach f js u = Some s'"
    by (auto split: option.splits)
  have "R s u" using Cons.prems(2)[of j s u] u(1) by simp
  moreover have "R u s'"
  proof (rule Cons.IH[OF u(2)])
    fix ja ua ub assume "ja \<in> set js" "f ja ua = Some ub"
    then show "R ua ub" using Cons.prems(2)[of ja ua ub] by simp
  qed
  ultimately show ?case by (rule assms(4))
qed

lemma commit_retarget:
  "\<exists>k. commit_road r lane c = c\<lparr>targetLaneId := k\<rparr>"
  "\<exists>k. commit_junction lane c = c\<lparr>targetLaneId := k\<rparr>"
  "\<exists>k. c = c\<lparr>targetLaneId := k\<rparr>"
proof -
  have e: "c = c\<lparr>targetLaneId := targetLaneId c\<rparr>" by simp
  then show x: "\<exists>k. c = c\<lparr>targetLaneId := k\<rparr>" by (rule exI)
  show "\<exists>k. commit_road r lane c = c\<lparr>targetLaneId := k\<rparr>"
  proof (cases "\<not> truthy (targetLaneId c) \<and> length (nextLanes lane) > 0")
    case True
    then show ?thesis unfolding commit_road_def by auto
  next
    case False
    then have "commit_road r lane c = c" unfolding commit_road_def by auto
    then show ?thesis using x by simp
  qed
  show "\<exists>k. commit_junction lane c = c\<lparr>targetLaneId := k\<rparr>"
  proof (cases "\<not> truthy (targetLaneId c) \<and> length (nextLanes lane) > 0")
    case True
    then show ?thesis unfolding commit_junction_def by auto
  next
    case False
    then have "commit_junction lane c = c" unfolding commit_junction_def by auto
    then show ?thesis using x by simp
  qed
qed

lemma perceive_car:
  assumes "perceive ls lts byLane r i cs = Some (g, d, c1)"
  shows "\<exists>k. c1 = (cs ! i)\<lparr>targetLaneId := k\<rparr>"
proof (cases "leader_of (byLane (laneId (cs ! i))) i")
  case (Some j)
  then have "c1 = cs ! i" using assms unfolding perceive_def Let_def by simp
  then show ?thesis using commit_retarget(3) by simp
next
  case None
  then obtain lane where e: "front_gap lts byLane r cs lane (cs ! i) = (g, d, c1)"
    using assms unfolding perceive_def Let_def by (auto split: option.splits)
  have "c1 \<in> {cs ! i, commit_road r lane (cs ! i), commit_junction lane (cs ! i)}"
    using front_gap_car[of lts byLane r cs lane "cs ! i"] unfolding e by simp
  then consider "c1 = cs ! i" | "c1 = commit_road r lane (cs ! i)" | "c1 = commit_junction lane (cs ! i)"
    by auto
  then show ?thesis by cases (simp_all add: commit_retarget)
qed

lemma decide_fields:
  "car_t (decide (g, d, c1)) = car_t c1" "laneId (decide (g, d, c1)) = laneId c1"
  "car_id (decide (g, d, c1)) = car_id c1" "targetLaneId (decide (g, d, c1)) = targetLaneId c1"
  by (simp_all add: decide_def Let_def)

lemma decide_clamp:
  "g < MIN_GAP \<Longrightarrow> car_v (decide (g, d, c1)) = 0 \<and> car_a (decide (g, d, c1)) = - IDM_B * 4"
  by (simp add: decide_def Let_def)

lemma pass1_step_shape:
  assumes "pass1_step ls lts byLane r_target j s = Some s'"
  shows "\<exists>c. s' = s[j := c] \<and> car_t c = car_t (s ! j) \<and> laneId c = laneId (s ! j) \<and> car_id c = car_id (s ! j)"
proof -
  from assms obtain g d c1 where p: "perceive ls lts byLane (r_target (car_id (s ! j))) j s = Some (g, d, c1)"
    and s': "s' = s[j := decide (g, d, c1)]"
    unfolding pass1_step_def by (auto split: option.splits)
  from perceive_car[OF p] obtain k where "c1 = (s ! j)\<lparr>targetLaneId := k\<rparr>" by blast
  then have "car_t c1 = car_t (s ! j) \<and> laneId c1 = laneId (s ! j) \<and> car_id c1 = car_id (s ! j)"
    by simp
  then show ?thesis using s' by (intro exI[of _ "decide (g, d, c1)"]) (simp add: decide_fields)
qed

lemma pass1_prefix_kept:
  assumes "forEach (pass1_step ls lts byLane r_target) [0..<k] s = Some s'" "k \<le> length s"
  shows "kept k s s'"
  using assms
proof (induction k arbitrary: s')
  case 0
  then show ?case by (simp add: kept_def)
next
  case (Suc k)
  from Suc.prems(1) obtain u where u: "forEach (pass1_step ls lts byLane r_target) [0..<k] s = Some u"
      "pass1_step ls lts byLane r_target k u = Some s'"
    by (auto simp: forEach_append split: option.splits)
  have ku: "kept k s u" using Suc.IH[OF u(1)] Suc.prems(2) by simp
  obtain c where c: "s' = u[k := c]" "car_t c = car_t (u ! k)"
    using pass1_step_shape[OF u(2)] by blast
  have "k < length u" using ku Suc.prems(2) by (simp add: kept_def)
  then show ?case
    using ku c unfolding kept_def by (auto simp: nth_list_update)
qed

lemma lastCar_of_eq:
  "lastCar_of byLane cs c =
    (if truthy (targetLaneId c) \<and> byLane (targetLaneId c) \<noteq> []
     then Some (cs ! last (byLane (targetLaneId c))) else None)"
  by (simp add: lastCar_of_def split: list.splits)

lemma front_gap_indep:
  assumes "\<forall>j. car_t (cs ! j) = car_t (cs' ! j)"
  shows "\<exists>d'. front_gap lts byLane r cs' lane c =
           (fst (front_gap lts byLane r cs lane c), d', snd (snd (front_gap lts byLane r cs lane c)))"
proof -
  have t: "car_t (cs ! j) = car_t (cs' ! j)" for j using assms by simp
  show ?thesis
  proof (cases "lane_type lane = ROAD")
    case True
    show ?thesis
      using True by (simp add: front_gap_def Let_def lastCar_of_eq t)
  next
    case False
    show ?thesis
      using False by (simp add: front_gap_def Let_def lastCar_of_eq t)
  qed
qed

lemma perceive_gap_indep:
  assumes "cs ! i = cs' ! i" "\<forall>j. car_t (cs ! j) = car_t (cs' ! j)"
    and "perceive ls lts byLane r i cs = Some (g, d, c1)"
  shows "\<exists>d'. perceive ls lts byLane r i cs' = Some (g, d', c1)"
proof (cases "leader_of (byLane (laneId (cs ! i))) i")
  case (Some j)
  have t: "car_t (cs ! j) = car_t (cs' ! j)" using assms(2) by simp
  have g: "g = leader_gap (car_t (cs ! j)) (car_t (cs ! i))" and c1: "c1 = cs ! i"
    using assms(3) Some by (auto simp: perceive_def Let_def)
  have "perceive ls lts byLane r i cs' =
      Some (leader_gap (car_t (cs' ! j)) (car_t (cs' ! i)), leader_dv (car_v (cs' ! i)) (car_v (cs' ! j)), cs' ! i)"
    using Some unfolding assms(1) by (simp add: perceive_def Let_def)
  then have "perceive ls lts byLane r i cs' = Some (g, leader_dv (car_v (cs' ! i)) (car_v (cs' ! j)), c1)"
    unfolding g c1 t assms(1) .
  then show ?thesis by (rule exI)
next
  case None
  then obtain lane where lane: "lanes_get ls (laneId (cs ! i)) = Some lane"
    and e: "front_gap lts byLane r cs lane (cs ! i) = (g, d, c1)"
    using assms(3) unfolding perceive_def Let_def by (auto split: option.splits)
  from front_gap_indep[OF assms(2), of lts byLane r lane "cs ! i"]
  obtain d' where "front_gap lts byLane r cs' lane (cs ! i) = (g, d', c1)"
    unfolding e by auto
  then have "perceive ls lts byLane r i cs' = Some (g, d', c1)"
    using None lane by (simp add: perceive_def Let_def assms(1)[symmetric])
  then show ?thesis by blast
qed

lemma forEach_split:
  assumes "i < n" "forEach f [0..<n] s = Some s'"
  shows "\<exists>u w. forEach f [0..<i] s = Some u \<and> f i u = Some w \<and> forEach f [Suc i..<n] w = Some s'"
proof -
  have "[0..<n] = [0..<i] @ i # [Suc i..<n]"
    using assms(1) by (metis le_add1 less_imp_add_positive upt_add_eq_append upt_conv_Cons plus_nat.add_0)
  then show ?thesis
    using assms(2) by (auto simp: forEach_append split: option.splits)
qed

lemma pass1_step_other:
  assumes "pass1_step ls lts byLane r_target j s = Some s'" "j \<noteq> i"
  shows "s' ! i = s ! i \<and> length s' = length s"
  using pass1_step_shape[OF assms(1)] assms(2) by auto

lemma pass1_rest_untouched:
  assumes "forEach (pass1_step ls lts byLane r_target) [Suc i..<n] s = Some s'"
  shows "s' ! i = s ! i \<and> length s' = length s"
proof (rule forEach_untouched[OF assms, where R = "\<lambda>u u'. u' ! i = u ! i \<and> length u' = length u"])
  fix j u u' assume "j \<in> set [Suc i..<n]" "pass1_step ls lts byLane r_target j u = Some u'"
  then show "u' ! i = u ! i \<and> length u' = length u"
    using pass1_step_other[of ls lts byLane r_target j u u' i] by simp
qed simp_all

lemma pass2_step_shape:
  assumes "pass2_step dt ls r_respawn j s = Some s'"
  shows "\<exists>c. s' = s[j := c] \<and> integrate dt ls (r_respawn (car_id (s ! j))) (s ! j) = Some c"
  using assms unfolding pass2_step_def by (auto split: option.splits)

lemma pass2_untouched:
  assumes "forEach (pass2_step dt ls r_respawn) js s = Some s'" "i \<notin> set js"
  shows "s' ! i = s ! i \<and> length s' = length s"
proof (rule forEach_untouched[OF assms(1), where R = "\<lambda>u u'. u' ! i = u ! i \<and> length u' = length u"])
  fix j u u' assume j: "j \<in> set js" and "pass2_step dt ls r_respawn j u = Some u'"
  then obtain c where "u' = u[j := c]" using pass2_step_shape by blast
  moreover have "j \<noteq> i" using j assms(2) by auto
  ultimately show "u' ! i = u ! i \<and> length u' = length u" by simp
qed simp_all

lemma integrate_stopped:
  assumes "car_v c = 0" "car_a c < 0" "integrate dt ls r c = Some c'"
  shows "car_v c' = 0 \<and> car_a c' = 0"
  using assms unfolding integrate_def Let_def
  by (auto split: option.splits if_splits)

lemma pass1_clamped:
  assumes i: "i < length cars"
    and p: "perceive ls lts byLane (r_target (car_id (cars ! i))) i cars = Some (gap, dv, c1)"
    and g: "gap < MIN_GAP"
    and p1: "pass1 ls lts byLane r_target cars = Some cars1"
  shows "car_v (cars1 ! i) = 0 \<and> car_a (cars1 ! i) = - IDM_B * 4 \<and> length cars1 = length cars"
proof -
  let ?f = "pass1_step ls lts byLane r_target"
  from forEach_split[OF i p1[unfolded pass1_def]]
  obtain u w where u: "forEach ?f [0..<i] cars = Some u" and w: "?f i u = Some w"
    and r: "forEach ?f [Suc i..<length cars] w = Some cars1" by blast
  have k: "kept i cars u" using pass1_prefix_kept[OF u] i by simp
  then have ui: "u ! i = cars ! i" and ut: "\<forall>j. car_t (cars ! j) = car_t (u ! j)"
    and ul: "length u = length cars"
    by (simp_all add: kept_def)
  from perceive_gap_indep[OF ui[symmetric] ut p]
  obtain d' where pu: "perceive ls lts byLane (r_target (car_id (cars ! i))) i u = Some (gap, d', c1)"
    by blast
  have "w = u[i := decide (gap, d', c1)]"
    using w pu unfolding pass1_step_def ui by simp
  then have "w ! i = decide (gap, d', c1)" "length w = length cars" using ul i by simp_all
  moreover have "cars1 ! i = w ! i \<and> length cars1 = length w" by (rule pass1_rest_untouched[OF r])
  ultimately show ?thesis using decide_clamp[OF g] by simp
qed

lemma pass2_stopped:
  assumes i: "i < length cars1" and v: "car_v (cars1 ! i) = 0" and a: "car_a (cars1 ! i) < 0"
    and p2: "pass2 dt ls r_respawn cars1 = Some cars2"
  shows "car_v (cars2 ! i) = 0 \<and> car_a (cars2 ! i) = 0"
proof -
  let ?f = "pass2_step dt ls r_respawn"
  from forEach_split[OF i p2[unfolded pass2_def]]
  obtain u w where u: "forEach ?f [0..<i] cars1 = Some u" and w: "?f i u = Some w"
    and r: "forEach ?f [Suc i..<length cars1] w = Some cars2" by blast
  have ui: "u ! i = cars1 ! i \<and> length u = length cars1"
    by (rule pass2_untouched[OF u]) simp
  obtain c where c: "w = u[i := c]" "integrate dt ls (r_respawn (car_id (u ! i))) (u ! i) = Some c"
    using pass2_step_shape[OF w] by blast
  have "car_v c = 0 \<and> car_a c = 0"
    using integrate_stopped[OF _ _ c(2)] v a ui by simp
  moreover have "w ! i = c" using c(1) ui i by simp
  moreover have "cars2 ! i = w ! i \<and> length cars2 = length w"
    by (rule pass2_untouched[OF r]) simp
  ultimately show ?thesis by simp
qed

text \<open>
  Claim C1, amended. When the gap a car perceives in a tick is below \<open>MIN_GAP\<close>, pass 1
  stores speed 0 and the emergency value \<open>- 4 IDM_B\<close> as its acceleration; pass 2 of
  the same tick finds the car stopped with a negative acceleration and resets the
  acceleration to 0. At the end of the tick the speed is 0 and the stored
  acceleration is 0.
\<close>

theorem emergency_clamp:
  assumes "i < length cars"
    and "perceive ls (updateTrafficLights dt lts) (carsByLane cars) (r_target (car_id (cars ! i))) i cars
           = Some (gap, dv, c1)"
    and "gap < MIN_GAP"
    and "updatePhysics dt ls r_target r_respawn (lts, cars) = Some (lts', cars')"
  shows "car_v (cars' ! i) = 0 \<and> car_a (cars' ! i) = 0 \<and>
         (\<exists>cars1. pass1 ls (updateTrafficLights dt lts) (carsByLane cars) r_target cars = Some cars1 \<and>
                   pass2 dt ls r_respawn cars1 = Some cars' \<and>
                   car_v (cars1 ! i) = 0 \<and> car_a (cars1 ! i) = - IDM_B * 4)"
proof -
  from assms(4) obtain cars1 where
      p1: "pass1 ls (updateTrafficLights dt lts) (carsByLane cars) r_target cars = Some cars1"
      and p2: "pass2 dt ls r_respawn cars1 = Some cars'"
    unfolding updatePhysics_def Let_def by (auto split: option.splits)
  have c1: "car_v (cars1 ! i) = 0 \<and> car_a (cars1 ! i) = - IDM_B * 4 \<and> length cars1 = length cars"
    by (rule pass1_clamped[OF assms(1,2,3) p1])
  then have "car_a (cars1 ! i) < 0" by (simp add: IDM_B_def)
  then have "car_v (cars' ! i) = 0 \<and> car_a (cars' ! i) = 0"
    using pass2_stopped[OF _ _ _ p2, of i] c1 assms(1) by simp
  then show ?thesis using p1 p2 c1 by blast
qed

section \<open>Worked examples\<close>

lemma demo_lights_updated:
  "updateTrafficLights PHYSICS_DT demo_lights =
     [(''1_0'', \<lparr>nodeId = ''1_0'', phase = 0, timer = 1 / 60, meshNS = LIGHT_GREEN, meshEW = LIGHT_RED\<rparr>)]"
  by (simp add: updateTrafficLights_def demo_lights_def new_light_def update_light_def Let_def
      PHYSICS_DT_def PHYSICS_HZ_def js_rem_def js_trunc_def T_defs signal_colors_def)

lemma demo_signal:
  "getTrafficLightState (updateTrafficLights PHYSICS_DT demo_lights) demo_lane = RED"
  unfolding demo_lights_updated
  by (simp add: getTrafficLightState_def demo_lane_def truthy_def Let_def LIGHT_defs)

lemma demo_lane_fields:
  "len demo_lane = 136" "lane_type demo_lane = ROAD" "lane_id demo_lane = ''R_0_0_1_0''"
  "nextLanes demo_lane = [''J_R_0_0_1_0_R_1_0_2_0'', ''J_R_0_0_1_0_R_1_0_1_1'']"
  by (simp_all add: demo_lane_def)

lemma demo_get: "lanes_get demo_lanes (Some ''R_0_0_1_0'') = Some demo_lane"
  by (simp add: lanes_get_def demo_lanes_def)

lemma demo_perceive_stop: "perceive demo_lanes (updateTrafficLights PHYSICS_DT demo_lights) (carsByLane [demo_car 0 133 5]) 0 0
              [demo_car 0 133 5] = Some (1, 5, demo_car 0 133 5)"
  by (simp add: perceive_def Let_def carsByLane_def leader_of_def indexOf_def demo_get
       front_gap_def demo_signal demo_car_def demo_lane_fields)

lemma demo_tick_stop: "updatePhysics PHYSICS_DT demo_lanes (\<lambda>_. 0) (\<lambda>_. 0) (demo_lights, [demo_car 0 133 5])
   = Some (updateTrafficLights PHYSICS_DT demo_lights, [(demo_car 0 133 0)\<lparr>color := CAR_ACCEL\<rparr>])"
  by (simp add: updatePhysics_def Let_def pass1_def pass1_step_def demo_perceive_stop decide_def MIN_GAP_def
        pass2_def pass2_step_def integrate_def)
     (simp add: demo_car_def demo_get demo_lane_fields car_color_def IDM_V0_def IDM_B_def)

lemma demo_byLane_A:
  "carsByLane [demo_car 3 133 5, demo_car 8 100 10] (Some ''R_0_0_1_0'') = [0, 1]"
  by (simp add: carsByLane_def demo_car_def upt_rec)

lemma demo_byLane_B:
  "carsByLane [demo_car 8 100 10, demo_car 3 133 5] (Some ''R_0_0_1_0'') = [1, 0]"
  by (simp add: carsByLane_def demo_car_def upt_rec)

lemma demo_car_fields:
  "laneId (demo_car i p s) = Some ''R_0_0_1_0''" "car_t (demo_car i p s) = p" "car_v (demo_car i p s) = s"
  "car_a (demo_car i p s) = 0" "car_id (demo_car i p s) = i" "targetLaneId (demo_car i p s) = None"
  by (simp_all add: demo_car_def)

lemma pass1_A:
  "pass1 demo_lanes (updateTrafficLights PHYSICS_DT demo_lights)
      (carsByLane [demo_car 3 133 5, demo_car 8 100 10]) (\<lambda>_. 0) [demo_car 3 133 5, demo_car 8 100 10]
   = Some [(demo_car 3 133 5)\<lparr>car_v := 0, car_a := - IDM_B * 4\<rparr>,
           (demo_car 8 100 10)\<lparr>car_a := idm_acc 10 10 (284 / 10)\<rparr>]"
  by (simp add: pass1_def pass1_step_def perceive_def Let_def demo_car_fields demo_byLane_A
       leader_of_def indexOf_def demo_get front_gap_def demo_signal demo_lane_fields decide_def MIN_GAP_def
       leader_gap_def leader_dv_def CAR_LENGTH_def upt_rec)

lemma pass1_B:
  "pass1 demo_lanes (updateTrafficLights PHYSICS_DT demo_lights)
      (carsByLane [demo_car 8 100 10, demo_car 3 133 5]) (\<lambda>_. 0) [demo_car 8 100 10, demo_car 3 133 5]
   = Some [(demo_car 8 100 10)\<lparr>car_a := idm_acc 10 5 (284 / 10)\<rparr>,
           (demo_car 3 133 5)\<lparr>car_v := 0, car_a := - IDM_B * 4\<rparr>]"
  by (simp add: pass1_def pass1_step_def perceive_def Let_def demo_car_fields demo_byLane_B
       leader_of_def indexOf_def demo_get front_gap_def demo_signal demo_lane_fields decide_def MIN_GAP_def
       leader_gap_def leader_dv_def CAR_LENGTH_def upt_rec)

lemma sqrt_IDM_pos: "0 < sqrt (IDM_A * IDM_B)"
  using sqrt_IDM_bounds(1) by linarith

lemma demo_acc_differ: "idm_acc 10 10 (284 / 10) < idm_acc 10 5 (284 / 10)"
proof -
  define q where "q = sqrt (IDM_A * IDM_B)"
  have q: "0 < q" unfolding q_def by (rule sqrt_IDM_pos)
  have s10: "s_star 10 10 = 19 + 50 / q"
    using q unfolding s_star_def q_def[symmetric] by (simp add: IDM_S0_def IDM_T_def max_def field_simps)
  have s5: "s_star 10 5 = 19 + 25 / q"
    using q unfolding s_star_def q_def[symmetric] by (simp add: IDM_S0_def IDM_T_def max_def field_simps)
  have "25 / q < 50 / q" using q by (simp add: divide_strict_right_mono)
  then have lt: "s_star 10 5 < s_star 10 10" unfolding s10 s5 by simp
  have pos: "0 < s_star 10 5" unfolding s5 using q by (simp add: add_pos_pos)
  have "(s_star 10 5 / (284 / 10))\<^sup>2 < (s_star 10 10 / (284 / 10))\<^sup>2"
    using lt pos by (intro power_strict_mono) simp_all
  then show ?thesis
    unfolding idm_acc_def by (simp add: IDM_A_def max_def)
qed

lemma pass1_ok:
  assumes ok: "\<forall>c \<in> set cars. car_ok ls c" and r: "\<forall>i. 0 \<le> r_target i \<and> r_target i < 1"
  shows "\<exists>cars1. pass1 ls lts byLane r_target cars = Some cars1 \<and> length cars1 = length cars \<and>
           (\<forall>j<length cars. car_ok ls (cars1 ! j) \<and> acc_ok (cars1 ! j))"
  unfolding pass1_def
proof (rule forEach_pointwise[where P = "car_ok ls"])
  show "length cars = length cars" by simp
  show "\<forall>j<length cars. car_ok ls (cars ! j)" using ok by simp
  fix i s
  assume "i < length cars" "length s = length cars" "\<forall>j. i \<le> j \<and> j < length cars \<longrightarrow> car_ok ls (s ! j)"
  then have "car_ok ls (s ! i)" by simp
  then show "\<exists>c. pass1_step ls lts byLane r_target i s = Some (s[i := c]) \<and> car_ok ls c \<and> acc_ok c"
    using r by (intro pass1_step_ok) simp_all
qed

lemma pass2_ok:
  assumes wf: "wf_net ls" and ok: "\<forall>j<length cars. car_ok ls (cars ! j) \<and> acc_ok (cars ! j)"
    and r: "\<forall>i. 0 \<le> r_respawn i \<and> r_respawn i < 1"
  shows "\<exists>cars2. pass2 PHYSICS_DT ls r_respawn cars = Some cars2 \<and> length cars2 = length cars \<and>
           (\<forall>j<length cars. car_ok ls (cars2 ! j))"
  unfolding pass2_def
proof (rule forEach_pointwise[where P = "\<lambda>c. car_ok ls c \<and> acc_ok c"])
  show "length cars = length cars" by simp
  show "\<forall>j<length cars. car_ok ls (cars ! j) \<and> acc_ok (cars ! j)" using ok by simp
  fix i s
  assume "i < length cars" "length s = length cars"
    "\<forall>j. i \<le> j \<and> j < length cars \<longrightarrow> car_ok ls (s ! j) \<and> acc_ok (s ! j)"
  then have "car_ok ls (s ! i)" "acc_ok (s ! i)" by simp_all
  from integrate_ok[OF wf this, of "r_respawn (car_id (s ! i))"] r
  obtain c' where "integrate PHYSICS_DT ls (r_respawn (car_id (s ! i))) (s ! i) = Some c'" "car_ok ls c'"
    by blast
  then show "\<exists>c. pass2_step PHYSICS_DT ls r_respawn i s = Some (s[i := c]) \<and> car_ok ls c"
    by (intro exI[of _ c']) (simp add: pass2_step_def)
qed

lemma tick_ok:
  assumes wf: "wf_net ls" and ok: "\<forall>c \<in> set cars. car_ok ls c"
    and rt: "\<forall>i. 0 \<le> r_target i \<and> r_target i < 1" and rr: "\<forall>i. 0 \<le> r_respawn i \<and> r_respawn i < 1"
  shows "\<exists>lts' cars'. updatePhysics PHYSICS_DT ls r_target r_respawn (lts, cars) = Some (lts', cars') \<and>
           length cars' = length cars \<and> (\<forall>c \<in> set cars'. car_ok ls c)"
proof -
  from pass1_ok[OF ok rt, of "updateTrafficLights PHYSICS_DT lts" "carsByLane cars"]
  obtain cars1 where c1: "pass1 ls (updateTrafficLights PHYSICS_DT lts) (carsByLane cars) r_target cars = Some cars1"
    "length cars1 = length cars" "\<forall>j<length cars. car_ok ls (cars1 ! j) \<and> acc_ok (cars1 ! j)"
    by blast
  from pass2_ok[OF wf _ rr, of cars1] c1(2,3)
  obtain cars2 where c2: "pass2 PHYSICS_DT ls r_respawn cars1 = Some cars2"
    "length cars2 = length cars" "\<forall>j<length cars. car_ok ls (cars2 ! j)"
    by auto
  have "\<forall>c \<in> set cars2. car_ok ls c"
    using c2(2,3) by (auto simp: in_set_conv_nth)
  then show ?thesis
    using c1(1) c2(1,2) by (simp add: updatePhysics_def Let_def)
qed

lemma run_ok:
  assumes wf: "wf_net ls" and ok: "\<forall>c \<in> set cars. car_ok ls c"
    and rt: "\<forall>m i. 0 \<le> r_target m i \<and> r_target m i < 1"
    and rr: "\<forall>m i. 0 \<le> r_respawn m i \<and> r_respawn m i < 1"
  shows "\<exists>lts' cars'. run_ticks n ls r_target r_respawn (lts, cars) = Some (lts', cars') \<and>
           length cars' = length cars \<and> (\<forall>c \<in> set cars'. car_ok ls c)"
proof (induction n)
  case 0
  then show ?case using ok by simp
next
  case (Suc n)
  then obtain l1 c1 where s: "run_ticks n ls r_target r_respawn (lts, cars) = Some (l1, c1)"
    "length c1 = length cars" "\<forall>c \<in> set c1. car_ok ls c" by blast
  from tick_ok[OF wf s(3), of "r_target n" "r_respawn n" l1] rt rr
  obtain l2 c2 where "updatePhysics PHYSICS_DT ls (r_target n) (r_respawn n) (l1, c1) = Some (l2, c2)"
    "length c2 = length c1" "\<forall>c \<in> set c2. car_ok ls c" by auto
  then show ?case using s(1,2) by simp
qed

lemma car_ok_in_range: "car_ok ls c \<Longrightarrow> in_range ls c \<and> 0 \<le> car_v c"
  unfolding car_ok_def in_range_def by (auto split: option.splits)

lemma integrate_Some:
  assumes "lanes_get ls (laneId c) = Some lane"
  shows "\<exists>c'. integrate dt ls r c = Some c' \<and> car_id c' = car_id c \<and>
              car_a c' = (if car_v c = 0 \<and> car_a c < 0 then 0 else car_a c)"
  using assms unfolding integrate_def Let_def by simp

lemma pass2_pair:
  assumes "lanes_get ls (laneId c0) = Some lane0" "lanes_get ls (laneId c1) = Some lane1"
  shows "\<exists>d0 d1. pass2 dt ls r [c0, c1] = Some [d0, d1] \<and>
           car_id d0 = car_id c0 \<and> car_id d1 = car_id c1 \<and>
           car_a d0 = (if car_v c0 = 0 \<and> car_a c0 < 0 then 0 else car_a c0) \<and>
           car_a d1 = (if car_v c1 = 0 \<and> car_a c1 < 0 then 0 else car_a c1)"
proof -
  from integrate_Some[OF assms(1), of dt "r (car_id c0)"]
  obtain d0 where d0: "integrate dt ls (r (car_id c0)) c0 = Some d0" "car_id d0 = car_id c0"
    "car_a d0 = (if car_v c0 = 0 \<and> car_a c0 < 0 then 0 else car_a c0)" by blast
  from integrate_Some[OF assms(2), of dt "r (car_id c1)"]
  obtain d1 where d1: "integrate dt ls (r (car_id c1)) c1 = Some d1" "car_id d1 = car_id c1"
    "car_a d1 = (if car_v c1 = 0 \<and> car_a c1 < 0 then 0 else car_a c1)" by blast
  have "pass2 dt ls r [c0, c1] = Some [d0, d1]"
    using d0(1) d1(1) by (simp add: pass2_def pass2_step_def upt_rec)
  then show ?thesis using d0(2,3) d1(2,3) by blast
qed

text \<open>
  Claim C3 says that a tick gives every car the same final state for every order of
  the car array. Two cars on one lane before a red light: the front car is within the
  hard-stop distance, so pass 1 sets its speed to 0 when it is visited. The follower
  reads the leader's speed in pass 1: 0 when the leader comes first in the array, 5
  when the follower comes first. Its acceleration at the end of the tick differs.
\<close>

theorem tick_order_dependent:
  "\<exists>lA cA lB cB.
     updatePhysics PHYSICS_DT demo_lanes (\<lambda>_. 0) (\<lambda>_. 0)
       (demo_lights, [demo_car 3 133 5, demo_car 8 100 10]) = Some (lA, cA) \<and>
     updatePhysics PHYSICS_DT demo_lanes (\<lambda>_. 0) (\<lambda>_. 0)
       (demo_lights, [demo_car 8 100 10, demo_car 3 133 5]) = Some (lB, cB) \<and>
     length cA = 2 \<and> length cB = 2 \<and> car_id (cA ! 1) = 8 \<and> car_id (cB ! 0) = 8 \<and>
     car_a (cA ! 1) = idm_acc 10 10 (284 / 10) \<and> car_a (cB ! 0) = idm_acc 10 5 (284 / 10) \<and>
     car_a (cA ! 1) < car_a (cB ! 0)"
proof -
  let ?L = "(demo_car 3 133 5)\<lparr>car_v := 0, car_a := - IDM_B * 4\<rparr>"
  let ?FA = "(demo_car 8 100 10)\<lparr>car_a := idm_acc 10 10 (284 / 10)\<rparr>"
  let ?FB = "(demo_car 8 100 10)\<lparr>car_a := idm_acc 10 5 (284 / 10)\<rparr>"
  have g: "lanes_get demo_lanes (laneId ?L) = Some demo_lane"
          "lanes_get demo_lanes (laneId ?FA) = Some demo_lane"
          "lanes_get demo_lanes (laneId ?FB) = Some demo_lane"
    by (simp_all add: demo_car_fields demo_get)
  from pass2_pair[OF g(1) g(2), of PHYSICS_DT "\<lambda>_. 0"]
  obtain a0 a1 where A: "pass2 PHYSICS_DT demo_lanes (\<lambda>_. 0) [?L, ?FA] = Some [a0, a1]"
    "car_id a1 = 8" "car_a a1 = idm_acc 10 10 (284 / 10)"
    by (auto simp: demo_car_fields)
  from pass2_pair[OF g(3) g(1), of PHYSICS_DT "\<lambda>_. 0"]
  obtain b0 b1 where B: "pass2 PHYSICS_DT demo_lanes (\<lambda>_. 0) [?FB, ?L] = Some [b0, b1]"
    "car_id b0 = 8" "car_a b0 = idm_acc 10 5 (284 / 10)"
    by (auto simp: demo_car_fields)
  have tA: "updatePhysics PHYSICS_DT demo_lanes (\<lambda>_. 0) (\<lambda>_. 0)
       (demo_lights, [demo_car 3 133 5, demo_car 8 100 10])
       = Some (updateTrafficLights PHYSICS_DT demo_lights, [a0, a1])"
    unfolding updatePhysics_def using pass1_A A(1) by (simp add: Let_def)
  have tB: "updatePhysics PHYSICS_DT demo_lanes (\<lambda>_. 0) (\<lambda>_. 0)
       (demo_lights, [demo_car 8 100 10, demo_car 3 133 5])
       = Some (updateTrafficLights PHYSICS_DT demo_lights, [b0, b1])"
    unfolding updatePhysics_def using pass1_B B(1) by (simp add: Let_def)
  show ?thesis
    unfolding tA tB using A(2,3) B(2,3) demo_acc_differ by simp
qed

text \<open>
  Claim C1, as the specification states it: at the end of the tick the stored
  acceleration is the emergency value. A car 3 units before a red stop line perceives
  the gap 1; after the tick its speed is 0 and its acceleration is 0, not -10.
\<close>

theorem emergency_clamp_counterexample:
  "(\<exists>dv c. perceive demo_lanes (updateTrafficLights PHYSICS_DT demo_lights) (carsByLane [demo_car 0 133 5])
              0 0 [demo_car 0 133 5] = Some (1, dv, c)) \<and>
   1 < MIN_GAP \<and>
   (\<exists>lts' car'. updatePhysics PHYSICS_DT demo_lanes (\<lambda>_. 0) (\<lambda>_. 0) (demo_lights, [demo_car 0 133 5])
                   = Some (lts', [car']) \<and>
                 car_v car' = 0 \<and> car_a car' = 0 \<and> car_a car' \<noteq> - IDM_B * 4)"
  unfolding demo_perceive_stop demo_tick_stop by (simp add: MIN_GAP_def IDM_B_def demo_car_def)

theorem emergency_clamp_witness:
  "0 < length [demo_car 0 133 5] \<and> 1 < MIN_GAP \<and>
   car_v ([(demo_car 0 133 0)\<lparr>color := CAR_ACCEL\<rparr>] ! 0) = 0 \<and>
   car_a ([(demo_car 0 133 0)\<lparr>color := CAR_ACCEL\<rparr>] ! 0) = 0 \<and>
   (\<exists>cars1. pass1 demo_lanes (updateTrafficLights PHYSICS_DT demo_lights) (carsByLane [demo_car 0 133 5])
               (\<lambda>_. 0) [demo_car 0 133 5] = Some cars1 \<and>
             pass2 PHYSICS_DT demo_lanes (\<lambda>_. 0) cars1 = Some [(demo_car 0 133 0)\<lparr>color := CAR_ACCEL\<rparr>] \<and>
             car_v (cars1 ! 0) = 0 \<and> car_a (cars1 ! 0) = - IDM_B * 4)"
proof -
  have g: "(1::real) < MIN_GAP" by (simp add: MIN_GAP_def)
  have i: "0 < length [demo_car 0 133 5]" by simp
  from emergency_clamp[OF i _ g, of demo_lanes PHYSICS_DT demo_lights "\<lambda>_. 0" 5 "demo_car 0 133 5",
      OF demo_perceive_stop demo_tick_stop]
  show ?thesis using g by simp
qed

section \<open>The junction builder equals its closed form\<close>

lemma amap_set_fresh: "k \<notin> fst ` set m \<Longrightarrow> amap_set k v m = m @ [(k, v)]"
  by (induction m) auto

lemma store_after_length: "length (objs (store_after rs ps)) = length rs + length ps"
  by (simp add: store_after_def)

lemma store_after_road:
  "a < length rs \<Longrightarrow> objs (store_after rs ps) ! a = road_after rs ps a"
  by (simp add: store_after_def nth_append)

lemma store_after_junction:
  "length rs \<le> a \<Longrightarrow> a < length rs + length ps \<Longrightarrow>
   objs (store_after rs ps) ! a = jlane_of rs (ps ! (a - length rs))"
  by (simp add: store_after_def nth_append)

lemma store_after_values: "lanes_values (store_after rs ps) = [0..<length rs + length ps]"
proof -
  have "map snd (zip (map lane_id rs) [0..<length rs]) = [0..<length rs]" by simp
  moreover have "map snd (zip (map (jid_of rs) ps) [length rs..<length rs + length ps])
        = [length rs..<length rs + length ps]" by simp
  moreover have "[0..<length rs + length ps] = [0..<length rs] @ [length rs..<length rs + length ps]"
    by (rule upt_add_eq_append) simp
  ultimately show ?thesis
    by (simp add: lanes_values_def store_after_def)
qed

lemma road_after_fields:
  "lane_type (road_after rs ps i) = lane_type (rs ! i)" "lane_id (road_after rs ps i) = lane_id (rs ! i)"
  "path (road_after rs ps i) = path (rs ! i)" "toNodeId (road_after rs ps i) = toNodeId (rs ! i)"
  "len (road_after rs ps i) = len (rs ! i)" "prevLanes (road_after rs ps i) = prevLanes (rs ! i)"
  "direction (road_after rs ps i) = direction (rs ! i)"
  "nextLanes (road_after rs ps i) = nextLanes (rs ! i) @ map (jid_of rs) (filter (\<lambda>p. fst p = i) ps)"
  by (simp_all add: road_after_def)

lemma junction_lane_fields:
  "lane_type (junction_lane a b) = JUNCTION" "lane_id (junction_lane a b) = junction_id (lane_id a) (lane_id b)"
  "nextLanes (junction_lane a b) = [lane_id b]" "prevLanes (junction_lane a b) = [lane_id a]"
  "toNodeId (junction_lane a b) = None" "direction (junction_lane a b) = None"
  by (simp_all add: junction_lane_def Let_def)

lemma junction_lane_cong:
  "path a = path a' \<Longrightarrow> lane_id a = lane_id a' \<Longrightarrow> path b = path b' \<Longrightarrow> lane_id b = lane_id b'
   \<Longrightarrow> junction_lane a b = junction_lane a' b'"
  by (simp add: junction_lane_def Let_def)

lemma junction_lane_road_after:
  "junction_lane (road_after rs ps i) (road_after rs ps oa) = jlane_of rs (i, oa)"
  unfolding jlane_of_def by (rule junction_lane_cong) (simp_all add: road_after_fields)

lemma accepts_road_after:
  "accepts (road_after rs ps i) (road_after rs ps oa) = accepts (rs ! i) (rs ! oa)"
  by (simp add: accepts_def road_after_fields)

lemma road_after_snoc:
  "road_after rs (ps @ [(ia, oa)]) i =
     (if i = ia then (road_after rs ps ia)\<lparr>nextLanes := nextLanes (road_after rs ps ia) @ [jid_of rs (ia, oa)]\<rparr>
      else road_after rs ps i)"
  by (simp add: road_after_def)

lemma roads_okD:
  assumes "roads_ok rs" "i < length rs"
  shows "lane_type (rs ! i) = ROAD" "length (lane_id (rs ! i)) = 9" "startsWith (lane_id (rs ! i)) ''R_''"
  using assms unfolding roads_ok_def list_all_iff by (auto simp: all_set_conv_all_nth)

lemma road_id_not_junction_id:
  assumes "startsWith k ''R_''" shows "k \<noteq> junction_id a b"
  using assms by (auto simp: startsWith_def junction_id_def)

lemma junction_id_inj:
  assumes "length a = length a'" "junction_id a b = junction_id a' b'"
  shows "a = a' \<and> b = b'"
  using assms by (simp add: junction_id_def)

lemma jid_of_inj:
  assumes ok: "roads_ok rs" and b: "fst p < length rs" "snd p < length rs" "fst q < length rs" "snd q < length rs"
    and e: "jid_of rs p = jid_of rs q"
  shows "p = q"
proof -
  have l: "length (lane_id (rs ! fst p)) = length (lane_id (rs ! fst q))"
    using roads_okD(2)[OF ok] b by simp
  from junction_id_inj[OF l e[unfolded jid_of_def]]
  have ids: "lane_id (rs ! fst p) = lane_id (rs ! fst q)" "lane_id (rs ! snd p) = lane_id (rs ! snd q)"
    by simp_all
  have d: "distinct (map lane_id rs)" using ok by (simp add: roads_ok_def)
  have "fst p = fst q"
    using ids(1) b d by (metis length_map nth_eq_iff_index_eq nth_map)
  moreover have "snd p = snd q"
    using ids(2) b d by (metis length_map nth_eq_iff_index_eq nth_map)
  ultimately show ?thesis by (simp add: prod_eq_iff)
qed

lemma jid_fresh:
  assumes ok: "roads_ok rs" and ps: "pairs_in rs ps" and b: "ia < length rs" "oa < length rs"
    and new: "(ia, oa) \<notin> set ps"
  shows "jid_of rs (ia, oa) \<notin> fst ` set (refs (store_after rs ps))"
proof
  assume "jid_of rs (ia, oa) \<in> fst ` set (refs (store_after rs ps))"
  then consider "jid_of rs (ia, oa) \<in> set (map lane_id rs)" | "jid_of rs (ia, oa) \<in> set (map (jid_of rs) ps)"
    unfolding store_after_def by (auto dest!: set_zip_leftD)
  then show False
  proof cases
    case 1
    then obtain i where i: "i < length rs" "lane_id (rs ! i) = jid_of rs (ia, oa)"
      by (auto simp: in_set_conv_nth)
    then show False
      using road_id_not_junction_id[OF roads_okD(3)[OF ok i(1)]] by (simp add: jid_of_def)
  next
    case 2
    then obtain q where q: "q \<in> set ps" "jid_of rs q = jid_of rs (ia, oa)" by auto
    then have "q = (ia, oa)"
      using jid_of_inj[OF ok, of q "(ia, oa)"] ps b by (simp add: pairs_in_def)
    then show False using q(1) new by simp
  qed
qed

lemma add_junction:
  assumes ok: "roads_ok rs" and ps: "pairs_in rs ps" and b: "ia < length rs" "oa < length rs"
    and new: "(ia, oa) \<notin> set ps"
  shows "push_next ia (jid_of rs (ia, oa))
           (lanes_set (jid_of rs (ia, oa)) (jlane_of rs (ia, oa)) (store_after rs ps))
         = store_after rs (ps @ [(ia, oa)])"
proof -
  let ?k = "jid_of rs (ia, oa)"
  let ?n = "length rs"
  have fresh: "amap_set ?k (?n + length ps) (refs (store_after rs ps)) = refs (store_after rs ps) @ [(?k, ?n + length ps)]"
    by (rule amap_set_fresh[OF jid_fresh[OF ok ps b new]])
  have r: "refs (store_after rs ps) @ [(?k, ?n + length ps)] = refs (store_after rs (ps @ [(ia, oa)]))"
    by (simp add: store_after_def)
  have o: "(objs (store_after rs ps) @ [jlane_of rs (ia, oa)])
             [ia := ((objs (store_after rs ps) @ [jlane_of rs (ia, oa)]) ! ia)
                     \<lparr>nextLanes := nextLanes ((objs (store_after rs ps) @ [jlane_of rs (ia, oa)]) ! ia) @ [?k]\<rparr>]
           = objs (store_after rs (ps @ [(ia, oa)]))"
  proof (rule nth_equalityI)
    show "length ((objs (store_after rs ps) @ [jlane_of rs (ia, oa)])
             [ia := ((objs (store_after rs ps) @ [jlane_of rs (ia, oa)]) ! ia)
                     \<lparr>nextLanes := nextLanes ((objs (store_after rs ps) @ [jlane_of rs (ia, oa)]) ! ia) @ [?k]\<rparr>])
          = length (objs (store_after rs (ps @ [(ia, oa)])))"
      by (simp add: store_after_length)
  next
    fix a
    assume "a < length ((objs (store_after rs ps) @ [jlane_of rs (ia, oa)])
             [ia := ((objs (store_after rs ps) @ [jlane_of rs (ia, oa)]) ! ia)
                     \<lparr>nextLanes := nextLanes ((objs (store_after rs ps) @ [jlane_of rs (ia, oa)]) ! ia) @ [?k]\<rparr>])"
    then have a: "a < ?n + length ps + 1" by (simp add: store_after_length)
    have ia: "(objs (store_after rs ps) @ [jlane_of rs (ia, oa)]) ! ia = road_after rs ps ia"
      using b(1) by (simp add: nth_append store_after_length store_after_road)
    show "((objs (store_after rs ps) @ [jlane_of rs (ia, oa)])
             [ia := ((objs (store_after rs ps) @ [jlane_of rs (ia, oa)]) ! ia)
                     \<lparr>nextLanes := nextLanes ((objs (store_after rs ps) @ [jlane_of rs (ia, oa)]) ! ia) @ [?k]\<rparr>]) ! a
          = objs (store_after rs (ps @ [(ia, oa)])) ! a"
    proof (cases "a < ?n")
      case True
      then show ?thesis
        unfolding ia using b(1)
        by (simp add: nth_list_update nth_append store_after_length store_after_road road_after_snoc)
    next
      case False
      then have "a \<noteq> ia" using b(1) by simp
      then show ?thesis
        unfolding ia using False a
        by (simp add: nth_append store_after_length store_after_def)
    qed
  qed
  show ?thesis
    unfolding push_next_def lanes_set_def
    by (simp add: store_after_length fresh r o)
qed

lemma junction_pair_store:
  assumes ok: "roads_ok rs" and ps: "pairs_in rs ps" and b: "ia < length rs" "oa < length rs + length ps"
    and new: "(ia, oa) \<notin> set ps"
  shows "junction_pair ia oa (store_after rs ps) =
           (if oa < length rs \<and> accepts (rs ! ia) (rs ! oa) then store_after rs (ps @ [(ia, oa)])
            else store_after rs ps)"
proof (cases "oa < length rs")
  case True
  have i: "objs (store_after rs ps) ! ia = road_after rs ps ia" by (rule store_after_road[OF b(1)])
  have o: "objs (store_after rs ps) ! oa = road_after rs ps oa" by (rule store_after_road[OF True])
  have t: "lane_type (road_after rs ps oa) = ROAD"
    using roads_okD(1)[OF ok True] by (simp add: road_after_fields)
  show ?thesis
  proof (cases "accepts (rs ! ia) (rs ! oa)")
    case acc: True
    then have c: "startsWith (lane_id (rs ! oa)) (''R_'' @ template_str (toNodeId (rs ! ia)) @ ''_'')"
      "\<not> angleTo (getTangent (path (rs ! ia)) 1) (getTangent (path (rs ! oa)) 0) > pi * (8 / 10)"
      by (simp_all add: accepts_def)
    have "junction_pair ia oa (store_after rs ps) =
        push_next ia (jid_of rs (ia, oa)) (lanes_set (jid_of rs (ia, oa)) (jlane_of rs (ia, oa)) (store_after rs ps))"
      unfolding junction_pair_def Let_def i o
      using t c by (simp add: road_after_fields junction_lane_road_after jid_of_def)
    then show ?thesis using add_junction[OF ok ps b(1) True new] True acc by simp
  next
    case rej: False
    then have "\<not> startsWith (lane_id (rs ! oa)) (''R_'' @ template_str (toNodeId (rs ! ia)) @ ''_'') \<or>
      angleTo (getTangent (path (rs ! ia)) 1) (getTangent (path (rs ! oa)) 0) > pi * (8 / 10)"
      by (auto simp: accepts_def)
    then have "junction_pair ia oa (store_after rs ps) = store_after rs ps"
      unfolding junction_pair_def Let_def i o
      using t by (auto simp: road_after_fields)
    then show ?thesis using rej by simp
  qed
next
  case False
  then have "objs (store_after rs ps) ! oa = jlane_of rs (ps ! (oa - length rs))"
    using b(2) by (intro store_after_junction) simp_all
  then have "lane_type (objs (store_after rs ps) ! oa) \<noteq> ROAD"
    by (simp add: jlane_of_def junction_lane_fields)
  then show ?thesis using False by (simp add: junction_pair_def Let_def)
qed

lemma pairs_in_snoc: "pairs_in rs ps \<Longrightarrow> ia < length rs \<Longrightarrow> oa < length rs \<Longrightarrow> pairs_in rs (ps @ [(ia, oa)])"
  by (simp add: pairs_in_def)

lemma inner_fold:
  assumes ok: "roads_ok rs" and ia: "ia < length rs"
  shows "pairs_in rs ps \<Longrightarrow> distinct os \<Longrightarrow> \<forall>oa \<in> set os. oa < length rs + length ps \<and> (ia, oa) \<notin> set ps \<Longrightarrow>
         fold (junction_pair ia) os (store_after rs ps) =
           store_after rs (ps @ map (Pair ia) (filter (\<lambda>oa. oa < length rs \<and> accepts (rs ! ia) (rs ! oa)) os))"
proof (induction os arbitrary: ps)
  case Nil
  then show ?case by simp
next
  case (Cons oa os)
  have b: "oa < length rs + length ps" "(ia, oa) \<notin> set ps" using Cons.prems(3) by simp_all
  note jp = junction_pair_store[OF ok Cons.prems(1) ia b]
  show ?case
  proof (cases "oa < length rs \<and> accepts (rs ! ia) (rs ! oa)")
    case True
    have p': "pairs_in rs (ps @ [(ia, oa)])" using pairs_in_snoc[OF Cons.prems(1) ia] True by simp
    have "fold (junction_pair ia) os (store_after rs (ps @ [(ia, oa)])) =
        store_after rs ((ps @ [(ia, oa)]) @ map (Pair ia) (filter (\<lambda>oa. oa < length rs \<and> accepts (rs ! ia) (rs ! oa)) os))"
    proof (rule Cons.IH[OF p'])
      show "distinct os" using Cons.prems(2) by simp
      show "\<forall>oa' \<in> set os. oa' < length rs + length (ps @ [(ia, oa)]) \<and> (ia, oa') \<notin> set (ps @ [(ia, oa)])"
        using Cons.prems(2,3) by auto
    qed
    then show ?thesis using jp True by simp
  next
    case False
    have "fold (junction_pair ia) os (store_after rs ps) =
        store_after rs (ps @ map (Pair ia) (filter (\<lambda>oa. oa < length rs \<and> accepts (rs ! ia) (rs ! oa)) os))"
    proof (rule Cons.IH[OF Cons.prems(1)])
      show "distinct os" using Cons.prems(2) by simp
      show "\<forall>oa' \<in> set os. oa' < length rs + length ps \<and> (ia, oa') \<notin> set ps"
        using Cons.prems(3) by auto
    qed
    then show ?thesis using jp False by auto
  qed
qed

lemma filter_upt_bound:
  "filter (\<lambda>oa. oa < n \<and> P oa) [0..<n + m] = filter P [0..<n]"
proof -
  have "[0..<n + m] = [0..<n] @ [n..<n + m]" by (rule upt_add_eq_append) simp
  moreover have "filter (\<lambda>oa. oa < n \<and> P oa) [0..<n] = filter P [0..<n]"
    by (rule filter_cong) auto
  moreover have "filter (\<lambda>oa. oa < n \<and> P oa) [n..<n + m] = []"
    by (simp add: filter_empty_conv)
  ultimately show ?thesis by simp
qed

lemma junctions_from_store:
  assumes ok: "roads_ok rs" and ia: "ia < length rs" and ps: "pairs_in rs ps"
    and new: "\<forall>p \<in> set ps. fst p \<noteq> ia"
  shows "junctions_from ia (store_after rs ps) = store_after rs (ps @ map (Pair ia) (outs_of rs ia))"
proof -
  have t: "lane_type (objs (store_after rs ps) ! ia) = ROAD"
    using roads_okD(1)[OF ok ia] by (simp add: store_after_road[OF ia] road_after_fields)
  have "fold (junction_pair ia) [0..<length rs + length ps] (store_after rs ps) =
      store_after rs (ps @ map (Pair ia)
        (filter (\<lambda>oa. oa < length rs \<and> accepts (rs ! ia) (rs ! oa)) [0..<length rs + length ps]))"
  proof (rule inner_fold[OF ok ia ps])
    show "distinct [0..<length rs + length ps]" by simp
    show "\<forall>oa \<in> set [0..<length rs + length ps]. oa < length rs + length ps \<and> (ia, oa) \<notin> set ps"
      using new by auto
  qed
  then show ?thesis
    unfolding junctions_from_def store_after_values outs_of_def filter_upt_bound using t by simp
qed

lemma outer_fold:
  assumes ok: "roads_ok rs"
  shows "pairs_in rs ps \<Longrightarrow> distinct is \<Longrightarrow> \<forall>i \<in> set is. i < length rs \<and> (\<forall>p \<in> set ps. fst p \<noteq> i) \<Longrightarrow>
         fold junctions_from is (store_after rs ps) =
           store_after rs (ps @ concat (map (\<lambda>i. map (Pair i) (outs_of rs i)) is))"
proof (induction "is" arbitrary: ps)
  case Nil
  then show ?case by simp
next
  case (Cons i "is")
  have i: "i < length rs" "\<forall>p \<in> set ps. fst p \<noteq> i" using Cons.prems(3) by simp_all
  have step: "junctions_from i (store_after rs ps) = store_after rs (ps @ map (Pair i) (outs_of rs i))"
    by (rule junctions_from_store[OF ok i(1) Cons.prems(1) i(2)])
  have p': "pairs_in rs (ps @ map (Pair i) (outs_of rs i))"
    using Cons.prems(1) i(1) by (auto simp: pairs_in_def outs_of_def)
  have "fold junctions_from is (store_after rs (ps @ map (Pair i) (outs_of rs i))) =
      store_after rs ((ps @ map (Pair i) (outs_of rs i)) @ concat (map (\<lambda>i. map (Pair i) (outs_of rs i)) is))"
  proof (rule Cons.IH[OF p'])
    show "distinct is" using Cons.prems(2) by simp
    show "\<forall>j \<in> set is. j < length rs \<and> (\<forall>p \<in> set (ps @ map (Pair i) (outs_of rs i)). fst p \<noteq> j)"
      using Cons.prems(2,3) by auto
  qed
  then show ?case using step by simp
qed

lemma store_after_Nil: "store_after rs [] = \<lparr>objs = rs, refs = zip (map lane_id rs) [0..<length rs]\<rparr>"
proof -
  have "map (road_after rs []) [0..<length rs] = map ((!) rs) [0..<length rs]"
    by (rule map_cong) (simp_all add: road_after_def)
  then show ?thesis by (simp add: store_after_def map_nth)
qed

theorem build_junctions_store:
  assumes "roads_ok rs"
  shows "build_junctions \<lparr>objs = rs, refs = zip (map lane_id rs) [0..<length rs]\<rparr>
           = store_after rs (connected_pairs rs)"
proof -
  have v: "lanes_values (store_after rs []) = [0..<length rs]"
    using store_after_values[of rs "[]"] by simp
  have "fold junctions_from [0..<length rs] (store_after rs []) =
      store_after rs ([] @ concat (map (\<lambda>i. map (Pair i) (outs_of rs i)) [0..<length rs]))"
    by (rule outer_fold[OF assms]) (simp_all add: pairs_in_def)
  then show ?thesis
    unfolding store_after_Nil[symmetric] build_junctions_def v connected_pairs_def by simp
qed

lemma lanes_view_store:
  "lanes_view (store_after rs ps) =
     map (\<lambda>i. (lane_id (rs ! i), road_after rs ps i)) [0..<length rs] @
     map (\<lambda>p. (jid_of rs p, jlane_of rs p)) ps"
proof -
  let ?st = "store_after rs ps"
  let ?n = "length rs"
  have a: "map (\<lambda>(k, a). (k, objs ?st ! a)) (zip (map lane_id rs) [0..<?n])
          = map (\<lambda>i. (lane_id (rs ! i), road_after rs ps i)) [0..<?n]"
    by (rule nth_equalityI) (simp_all add: store_after_road)
  have b: "map (\<lambda>(k, a). (k, objs ?st ! a)) (zip (map (jid_of rs) ps) [?n..<?n + length ps])
          = map (\<lambda>p. (jid_of rs p, jlane_of rs p)) ps"
    by (rule nth_equalityI) (simp_all add: store_after_junction)
  have "lanes_view ?st = map (\<lambda>(k, a). (k, objs ?st ! a)) (zip (map lane_id rs) [0..<?n]) @
      map (\<lambda>(k, a). (k, objs ?st ! a)) (zip (map (jid_of rs) ps) [?n..<?n + length ps])"
    by (simp add: lanes_view_def store_after_def)
  then show ?thesis unfolding a b .
qed

lemma view_keys:
  "map fst (lanes_view (store_after rs ps)) = map lane_id rs @ map (jid_of rs) ps"
proof -
  have "map (\<lambda>i. lane_id (rs ! i)) [0..<length rs] = map lane_id rs"
    by (rule nth_equalityI) simp_all
  then show ?thesis by (simp add: lanes_view_store comp_def)
qed

lemma jid_of_distinct:
  assumes ok: "roads_ok rs" and ps: "pairs_in rs ps" and d: "distinct ps"
  shows "distinct (map (jid_of rs) ps)"
proof -
  have "inj_on (jid_of rs) (set ps)"
  proof (rule inj_onI)
    fix p q assume "p \<in> set ps" "q \<in> set ps" "jid_of rs p = jid_of rs q"
    then show "p = q" using jid_of_inj[OF ok, of p q] ps by (simp add: pairs_in_def)
  qed
  then show ?thesis using d by (simp add: distinct_map)
qed

lemma view_keys_distinct:
  assumes ok: "roads_ok rs" and ps: "pairs_in rs ps" and d: "distinct ps"
  shows "distinct (map fst (lanes_view (store_after rs ps)))"
proof -
  have "set (map lane_id rs) \<inter> set (map (jid_of rs) ps) = {}"
  proof (rule ccontr)
    assume "set (map lane_id rs) \<inter> set (map (jid_of rs) ps) \<noteq> {}"
    then obtain i p where i: "i < length rs" and "lane_id (rs ! i) = jid_of rs p"
      by (auto simp: in_set_conv_nth)
    then show False
      using road_id_not_junction_id[OF roads_okD(3)[OF ok i]] by (simp add: jid_of_def)
  qed
  moreover have "distinct (map lane_id rs)" using ok by (simp add: roads_ok_def)
  ultimately show ?thesis
    unfolding view_keys using jid_of_distinct[OF ok ps d] by simp
qed

lemma view_lookup_road:
  assumes ok: "roads_ok rs" and ps: "pairs_in rs ps" and d: "distinct ps" and i: "i < length rs"
  shows "map_of (lanes_view (store_after rs ps)) (lane_id (rs ! i)) = Some (road_after rs ps i)"
proof -
  have "(lane_id (rs ! i), road_after rs ps i) \<in> set (lanes_view (store_after rs ps))"
    using i by (auto simp: lanes_view_store)
  then show ?thesis
    using view_keys_distinct[OF ok ps d] by simp
qed

lemma view_lookup_junction:
  assumes ok: "roads_ok rs" and ps: "pairs_in rs ps" and d: "distinct ps" and p: "p \<in> set ps"
  shows "map_of (lanes_view (store_after rs ps)) (jid_of rs p) = Some (jlane_of rs p)"
proof -
  have "(jid_of rs p, jlane_of rs p) \<in> set (lanes_view (store_after rs ps))"
    using p by (auto simp: lanes_view_store)
  then show ?thesis
    using view_keys_distinct[OF ok ps d] by simp
qed

lemma connected_pairs_iff:
  "(i, oa) \<in> set (connected_pairs rs) \<longleftrightarrow> i < length rs \<and> oa < length rs \<and> accepts (rs ! i) (rs ! oa)"
  by (auto simp: connected_pairs_def outs_of_def)

lemma connected_pairs_in: "pairs_in rs (connected_pairs rs)"
  unfolding pairs_in_def using connected_pairs_iff by auto

lemma connected_pairs_distinct: "distinct (connected_pairs rs)"
proof -
  have "distinct (concat (map (\<lambda>i. map (Pair i) (outs_of rs i)) [0..<n]))" for n
  proof (induction n)
    case 0
    then show ?case by simp
  next
    case (Suc n)
    have "distinct (map (Pair n) (outs_of rs n))"
      by (simp add: distinct_map outs_of_def inj_on_def)
    moreover have "set (concat (map (\<lambda>i. map (Pair i) (outs_of rs i)) [0..<n])) \<inter>
                   set (map (Pair n) (outs_of rs n)) = {}"
      by auto
    ultimately show ?case using Suc by simp
  qed
  then show ?thesis by (simp add: connected_pairs_def)
qed

section \<open>Lengths of lines and curves\<close>

lemmas vec_defs = v_add_def v_sub_def multiplyScalar_def divideScalar_def

lemma v_length_scale: "v_length (multiplyScalar p s) = \<bar>s\<bar> * v_length p"
proof -
  have "lengthSq (multiplyScalar p s) = s\<^sup>2 * lengthSq p"
    by (simp add: lengthSq_def multiplyScalar_def power2_eq_square algebra_simps)
  then show ?thesis
    by (simp add: v_length_def real_sqrt_mult)
qed

lemma getPoint_line: "getPoint (LineCurve3 a b) u = v_add (multiplyScalar (v_sub b a) u) a"
proof (cases "u = 1")
  case True
  then show ?thesis by (cases a; cases b) (simp add: vec_defs)
next
  case False
  then show ?thesis by simp
qed

lemma chord_diff:
  "v_sub (v_add (multiplyScalar d u) a) (v_add (multiplyScalar d w) a) = multiplyScalar d (u - w)"
  by (simp add: vec_defs algebra_simps)

lemma line_chord:
  assumes "0 < p"
  shows "distanceTo (getPoint (LineCurve3 a b) (real p / 200))
                    (getPoint (LineCurve3 a b) (real (p - 1) / 200)) = v_length (v_sub b a) / 200"
proof -
  have e: "real p / 200 - real (p - 1) / 200 = 1 / 200"
    using assms by (simp add: of_nat_diff field_simps)
  show ?thesis
    unfolding distanceTo_def getPoint_line chord_diff e by (simp add: v_length_scale)
qed

lemma getLength_line: "getLength (LineCurve3 a b) = v_length (v_sub b a)"
proof -
  have "distanceTo (getPoint (LineCurve3 a b) (real p / real 200))
                   (getPoint (LineCurve3 a b) (real (p - 1) / real 200)) = v_length (v_sub b a) / 200"
    if "p \<in> set [1..<Suc 200]" for p
  proof -
    have "0 < p" using that by simp
    from line_chord[OF this] show ?thesis by (simp only: of_nat_numeral)
  qed
  then have M: "map (\<lambda>p. distanceTo (getPoint (LineCurve3 a b) (real p / real 200))
                    (getPoint (LineCurve3 a b) (real (p - 1) / real 200))) [1..<Suc 200]
      = map (\<lambda>p. v_length (v_sub b a) / 200) [1..<Suc 200]"
    by (rule map_cong[OF refl])
  show ?thesis
    unfolding getLength_def arcLengthDivisions_def M by (simp add: sum_list_triv)
qed

lemma v_length_nonneg: "0 \<le> v_length p"
  by (simp add: v_length_def lengthSq_def)

lemma v_length_triangle: "v_length (v_add p q) \<le> v_length p + v_length q"
proof -
  obtain a1 a2 a3 where p: "p = Vector3 a1 a2 a3" by (cases p)
  obtain b1 b2 b3 where q: "q = Vector3 b1 b2 b3" by (cases q)
  let ?A = "sqrt (a1\<^sup>2 + a2\<^sup>2)" and ?B = "sqrt (b1\<^sup>2 + b2\<^sup>2)"
  let ?C = "sqrt ((a1 + b1)\<^sup>2 + (a2 + b2)\<^sup>2)"
  have c: "?C \<le> ?A + ?B" by (rule real_sqrt_sum_squares_triangle_ineq)
  have c0: "0 \<le> ?C" by simp
  have "?C\<^sup>2 \<le> (?A + ?B)\<^sup>2" using c c0 by (rule power_mono)
  then have "sqrt (?C\<^sup>2 + (a3 + b3)\<^sup>2) \<le> sqrt ((?A + ?B)\<^sup>2 + (a3 + b3)\<^sup>2)"
    by simp
  also have "\<dots> \<le> sqrt (?A\<^sup>2 + a3\<^sup>2) + sqrt (?B\<^sup>2 + b3\<^sup>2)"
    by (rule real_sqrt_sum_squares_triangle_ineq)
  finally have "sqrt ((a1 + b1)\<^sup>2 + (a2 + b2)\<^sup>2 + (a3 + b3)\<^sup>2)
                 \<le> sqrt (a1\<^sup>2 + a2\<^sup>2 + a3\<^sup>2) + sqrt (b1\<^sup>2 + b2\<^sup>2 + b3\<^sup>2)"
    by simp
  then show ?thesis
    unfolding p q by (simp add: v_length_def lengthSq_def v_add_def power2_eq_square)
qed

lemma distance_triangle: "distanceTo p r \<le> distanceTo p q + distanceTo q r"
proof -
  have "v_sub p r = v_add (v_sub p q) (v_sub q r)"
    by (simp add: vec_defs)
  then show ?thesis
    unfolding distanceTo_def using v_length_triangle[of "v_sub p q" "v_sub q r"] by simp
qed

lemma chain_distance:
  "distanceTo (P n) (P 0) \<le> (\<Sum>p\<leftarrow>[1..<Suc n]. distanceTo (P p) (P (p - 1)))"
proof (induction n)
  case 0
  then show ?case by (simp add: distanceTo_def v_length_def lengthSq_def v_sub_def)
next
  case (Suc n)
  have "distanceTo (P (Suc n)) (P 0) \<le> distanceTo (P (Suc n)) (P n) + distanceTo (P n) (P 0)"
    by (rule distance_triangle)
  then show ?case using Suc by simp
qed

lemma getLength_chord: "distanceTo (getPoint c 1) (getPoint c 0) \<le> getLength c"
proof -
  let ?P = "\<lambda>p. getPoint c (real p / real arcLengthDivisions)"
  have "distanceTo (?P arcLengthDivisions) (?P 0) \<le> getLength c"
    unfolding getLength_def by (rule chain_distance)
  then show ?thesis by (simp add: arcLengthDivisions_def)
qed

lemma junction_lane_len:
  "distanceTo (getPoint (path b) 0) (getPoint (path a) 1) \<le> len (junction_lane a b)"
proof -
  let ?p1 = "getPoint (path a) 1" and ?p2 = "getPoint (path b) 0"
  let ?c = "v_add ?p1 (multiplyScalar (getTangent (path a) 1) (ROAD_WIDTH * (15 / 10)))"
  have e0: "getPoint (QuadraticBezierCurve3 ?p1 ?c ?p2) 0 = ?p1"
    by (cases ?p1; cases ?c; cases ?p2) (simp add: vec_defs)
  have e1: "getPoint (QuadraticBezierCurve3 ?p1 ?c ?p2) 1 = ?p2"
    by (cases ?p1; cases ?c; cases ?p2) (simp add: vec_defs)
  have "len (junction_lane a b) = getLength (QuadraticBezierCurve3 ?p1 ?c ?p2)"
    by (simp add: junction_lane_def Let_def)
  then show ?thesis
    using getLength_chord[of "QuadraticBezierCurve3 ?p1 ?c ?p2"] unfolding e0 e1 by simp
qed

section \<open>The built network\<close>

lemma V_MAX_step: "V_MAX * PHYSICS_DT < 1" "0 < V_MAX * PHYSICS_DT"
  by (simp_all add: V_MAX_def IDM_V0_def IDM_A_def PHYSICS_DT_def PHYSICS_HZ_def)

lemma wf_net_store:
  assumes ok: "roads_ok rs" and ne: "rs \<noteq> []" and ps: "pairs_in rs ps" and d: "distinct ps"
    and roads: "\<forall>l \<in> set rs. nextLanes l = [] \<and> V_MAX * PHYSICS_DT < len l"
    and ends: "\<forall>a \<in> set rs. \<forall>b \<in> set rs. 1 \<le> lengthSq (v_sub (getPoint (path b) 0) (getPoint (path a) 1))"
  shows "wf_net (lanes_view (store_after rs ps))"
proof -
  let ?v = "lanes_view (store_after rs ps)"
  have keys: "set (map fst ?v) = lane_id ` set rs \<union> jid_of rs ` set ps"
    by (simp add: view_keys)
  have road: "k \<noteq> [] \<and> lane_id l = k \<and> V_MAX * PHYSICS_DT < len l \<and>
              list_all (\<lambda>x. x \<in> set (map fst ?v)) (nextLanes l)"
    if "i < length rs" "k = lane_id (rs ! i)" "l = road_after rs ps i" for i k l
  proof -
    have "length k = 9" using roads_okD(2)[OF ok that(1)] that(2) by simp
    then have "k \<noteq> []" by auto
    moreover have "V_MAX * PHYSICS_DT < len l" "nextLanes (rs ! i) = []"
      using roads that(1,3) by (simp_all add: road_after_fields)
    moreover from this have "list_all (\<lambda>x. x \<in> set (map fst ?v)) (nextLanes l)"
      unfolding keys that(3) by (auto simp: road_after_fields list_all_iff)
    ultimately show ?thesis using that(2,3) by (simp add: road_after_fields)
  qed
  have junc: "k \<noteq> [] \<and> lane_id l = k \<and> V_MAX * PHYSICS_DT < len l \<and>
              list_all (\<lambda>x. x \<in> set (map fst ?v)) (nextLanes l)"
    if "p \<in> set ps" "k = jid_of rs p" "l = jlane_of rs p" for p k l
  proof -
    have b: "fst p < length rs" "snd p < length rs" using ps that(1) by (simp_all add: pairs_in_def)
    have "k \<noteq> []" using that(2) by (simp add: jid_of_def junction_id_def)
    moreover have "lane_id l = k" using that(2,3) by (simp add: jlane_of_def jid_of_def junction_lane_fields)
    moreover have "V_MAX * PHYSICS_DT < len l"
    proof -
      let ?q = "v_sub (getPoint (path (rs ! snd p)) 0) (getPoint (path (rs ! fst p)) 1)"
      have "1 \<le> lengthSq ?q" using ends b by simp
      then have "1 \<le> v_length ?q" unfolding v_length_def by simp
      then have "1 \<le> len l"
        using junction_lane_len[of "rs ! snd p" "rs ! fst p"] that(3)
        by (simp add: jlane_of_def distanceTo_def)
      then show ?thesis using V_MAX_step(1) by linarith
    qed
    moreover have "list_all (\<lambda>x. x \<in> set (map fst ?v)) (nextLanes l)"
      unfolding keys using that(3) b by (simp add: jlane_of_def junction_lane_fields)
    ultimately show ?thesis by simp
  qed
  have all0: "\<forall>e \<in> set ?v. case e of (k, l) \<Rightarrow> k \<noteq> [] \<and> lane_id l = k \<and> V_MAX * PHYSICS_DT < len l \<and>
                         list_all (\<lambda>x. x \<in> set (map fst ?v)) (nextLanes l)"
  proof
    fix e assume "e \<in> set ?v"
    then consider i where "i < length rs" "e = (lane_id (rs ! i), road_after rs ps i)"
      | p where "p \<in> set ps" "e = (jid_of rs p, jlane_of rs p)"
      unfolding lanes_view_store by auto
    then show "case e of (k, l) \<Rightarrow> k \<noteq> [] \<and> lane_id l = k \<and> V_MAX * PHYSICS_DT < len l \<and>
                         list_all (\<lambda>x. x \<in> set (map fst ?v)) (nextLanes l)"
    proof cases
      case 1
      then show ?thesis using road[OF 1(1) refl refl] by simp
    next
      case 2
      then show ?thesis using junc[OF 2(1) refl refl] by simp
    qed
  qed
  have all: "list_all (\<lambda>(k, l). k \<noteq> [] \<and> lane_id l = k \<and> V_MAX * PHYSICS_DT < len l \<and>
                         list_all (\<lambda>x. x \<in> set (map fst ?v)) (nextLanes l)) ?v"
    by (rule iffD2[OF list_all_iff]) (rule all0)
  have "0 < length rs" using ne by simp
  then have "startsWith (lane_id (rs ! 0)) ''R_''" "lane_id (rs ! 0) \<in> set (map fst ?v)"
    using roads_okD(3)[OF ok] unfolding keys by simp_all
  then have ex: "list_ex (\<lambda>k. startsWith k ''R_'') (map fst ?v)"
    unfolding list_ex_iff by blast
  show ?thesis
    unfolding wf_net_def using view_keys_distinct[OF ok ps d] all ex by simp
qed

lemma string_of_nat_digits:
  "string_of_nat 0 = ''0''" "string_of_nat (Suc 0) = ''1''" "string_of_nat (Suc (Suc 0)) = ''2''"
  "string_of_nat 1 = ''1''" "string_of_nat 2 = ''2''"
  by (simp_all add: digit_char_def)

lemma v_length_axis: "v_length (Vector3 x 0 0) = \<bar>x\<bar>" "v_length (Vector3 0 0 z) = \<bar>z\<bar>"
  by (simp_all add: v_length_def lengthSq_def)

lemma road_lanes_length: "length road_lanes = 24"
  by (simp add: road_lanes_def)

lemma upt_24: "[0..<24] = [0, 1, 2, 3, 4, 5, 6, 7, 8, 9, 10, 11, 12, 13, 14, 15, 16, 17, 18, 19, 20, 21, 22, 23]"
  by (simp add: upt_rec)

lemma build_roads_eval:
  "build_roads empty_store = \<lparr>objs = road_lanes, refs = zip (map lane_id road_lanes) [0..<length road_lanes]\<rparr>"
  unfolding road_lanes_length upt_24
  by (simp add: build_roads_def GRID_SIZE_def upt_rec roads_east_def roads_south_def node_id_def
      string_of_nat_digits getNodePos_def BLOCK_SIZE_def ROAD_WIDTH_def LANE_OFFSET_def v_add_def
      road_id_def addRoadLane_def Let_def lanes_set_def empty_store_def getLength_line v_sub_def
      v_length_axis road_lanes_def del: string_of_nat.simps)

lemma road_lanes_ok: "roads_ok road_lanes"
  by (simp add: roads_ok_def road_lanes_def startsWith_def)

lemma road_lanes_plain: "\<forall>l \<in> set road_lanes. nextLanes l = [] \<and> prevLanes l = [] \<and> V_MAX * PHYSICS_DT < len l"
  using V_MAX_step(1) by (simp add: road_lanes_def)

lemma road_starts: "map (\<lambda>l. getPoint (path l) 0) road_lanes = [Vector3 (- 148) 0 (- 157), Vector3 (- 12) 0 (- 163), Vector3 (- 163) 0 (- 148), Vector3 (- 157) 0 (- 12), Vector3 (- 148) 0 3, Vector3 (- 12) 0 (- 3), Vector3 (- 163) 0 12, Vector3 (- 157) 0 148, Vector3 (- 148) 0 163, Vector3 (- 12) 0 157, Vector3 12 0 (- 157), Vector3 148 0 (- 163), Vector3 (- 3) 0 (- 148), Vector3 3 0 (- 12), Vector3 12 0 3, Vector3 148 0 (- 3), Vector3 (- 3) 0 12, Vector3 3 0 148, Vector3 12 0 163, Vector3 148 0 157, Vector3 157 0 (- 148), Vector3 163 0 (- 12), Vector3 157 0 12, Vector3 163 0 148]"
  by (simp add: road_lanes_def vec_defs)

lemma road_ends: "map (\<lambda>l. getPoint (path l) 1) road_lanes = [Vector3 (- 12) 0 (- 157), Vector3 (- 148) 0 (- 163), Vector3 (- 163) 0 (- 12), Vector3 (- 157) 0 (- 148), Vector3 (- 12) 0 3, Vector3 (- 148) 0 (- 3), Vector3 (- 163) 0 148, Vector3 (- 157) 0 12, Vector3 (- 12) 0 163, Vector3 (- 148) 0 157, Vector3 148 0 (- 157), Vector3 12 0 (- 163), Vector3 (- 3) 0 (- 12), Vector3 3 0 (- 148), Vector3 148 0 3, Vector3 12 0 (- 3), Vector3 (- 3) 0 148, Vector3 3 0 12, Vector3 148 0 163, Vector3 12 0 157, Vector3 157 0 (- 12), Vector3 163 0 (- 148), Vector3 157 0 148, Vector3 163 0 12]"
  by (simp add: road_lanes_def)

lemma road_lanes_apart:
  "\<forall>a \<in> set road_lanes. \<forall>b \<in> set road_lanes.
     1 \<le> lengthSq (v_sub (getPoint (path b) 0) (getPoint (path a) 1))"
proof -
  have "\<forall>e \<in> set (map (\<lambda>l. getPoint (path l) 1) road_lanes).
        \<forall>s \<in> set (map (\<lambda>l. getPoint (path l) 0) road_lanes). 1 \<le> lengthSq (v_sub s e)"
    unfolding road_starts road_ends by (simp add: lengthSq_def v_sub_def)
  then show ?thesis by simp
qed

lemma network_eq: "network = lanes_view (store_after road_lanes (connected_pairs road_lanes))"
  unfolding network_def build_roads_eval
  by (simp add: build_junctions_store[OF road_lanes_ok])

lemma network_wf: "wf_net network"
  unfolding network_eq
proof (rule wf_net_store[OF road_lanes_ok _ connected_pairs_in connected_pairs_distinct])
  show "road_lanes \<noteq> []" using road_lanes_length by auto
  show "\<forall>l \<in> set road_lanes. nextLanes l = [] \<and> V_MAX * PHYSICS_DT < len l"
    using road_lanes_plain by simp
  show "\<forall>a \<in> set road_lanes. \<forall>b \<in> set road_lanes.
     1 \<le> lengthSq (v_sub (getPoint (path b) 0) (getPoint (path a) 1))"
    by (rule road_lanes_apart)
qed

lemma network_roads:
  assumes "(k, l) \<in> set network" "lane_type l = ROAD"
  shows "\<exists>i < length road_lanes. k = lane_id (road_lanes ! i) \<and>
           l = road_after road_lanes (connected_pairs road_lanes) i"
proof -
  from assms(1) consider i where "i < length road_lanes" "k = lane_id (road_lanes ! i)"
        "l = road_after road_lanes (connected_pairs road_lanes) i"
    | p where "l = jlane_of road_lanes p"
    unfolding network_eq lanes_view_store by auto
  then show ?thesis
  proof cases
    case 1
    then show ?thesis by blast
  next
    case 2
    then show ?thesis using assms(2) by (simp add: jlane_of_def junction_lane_fields)
  qed
qed

lemma network_junctions:
  assumes "(k, l) \<in> set network" "lane_type l = JUNCTION"
  shows "\<exists>p \<in> set (connected_pairs road_lanes). k = jid_of road_lanes p \<and> l = jlane_of road_lanes p"
proof -
  from assms(1) consider i where "i < length road_lanes" "l = road_after road_lanes (connected_pairs road_lanes) i"
    | p where "p \<in> set (connected_pairs road_lanes)" "k = jid_of road_lanes p" "l = jlane_of road_lanes p"
    unfolding network_eq lanes_view_store by auto
  then show ?thesis
  proof cases
    case 1
    then show ?thesis
      using assms(2) roads_okD(1)[OF road_lanes_ok 1(1)] by (simp add: road_after_fields)
  next
    case 2
    then show ?thesis by blast
  qed
qed

lemma network_lookup_road:
  assumes "i < length road_lanes"
  shows "map_of network (lane_id (road_lanes ! i)) = Some (road_after road_lanes (connected_pairs road_lanes) i)"
    and "(lane_id (road_lanes ! i), road_after road_lanes (connected_pairs road_lanes) i) \<in> set network"
proof -
  show "map_of network (lane_id (road_lanes ! i)) = Some (road_after road_lanes (connected_pairs road_lanes) i)"
    unfolding network_eq
    by (rule view_lookup_road[OF road_lanes_ok connected_pairs_in connected_pairs_distinct assms])
  then show "(lane_id (road_lanes ! i), road_after road_lanes (connected_pairs road_lanes) i) \<in> set network"
    by (rule map_of_SomeD)
qed

lemma network_lookup_junction:
  assumes "p \<in> set (connected_pairs road_lanes)"
  shows "map_of network (jid_of road_lanes p) = Some (jlane_of road_lanes p)"
    and "(jid_of road_lanes p, jlane_of road_lanes p) \<in> set network"
proof -
  show "map_of network (jid_of road_lanes p) = Some (jlane_of road_lanes p)"
    unfolding network_eq
    by (rule view_lookup_junction[OF road_lanes_ok connected_pairs_in connected_pairs_distinct assms])
  then show "(jid_of road_lanes p, jlane_of road_lanes p) \<in> set network"
    by (rule map_of_SomeD)
qed

lemma road_ids_inj:
  assumes "i < length road_lanes" "j < length road_lanes" "lane_id (road_lanes ! i) = lane_id (road_lanes ! j)"
  shows "i = j"
proof -
  have "distinct (map lane_id road_lanes)" using road_lanes_ok by (simp add: roads_ok_def)
  then show ?thesis using assms by (metis length_map nth_eq_iff_index_eq nth_map)
qed

text \<open>
  Claim C2, amended. Every JUNCTION lane of the built network, stored under its own id,
  has exactly one predecessor and one successor, both ROAD lanes of the network, and
  is listed among the successors of its predecessor. The builder writes no
  predecessor list of a ROAD lane: the \<open>prevLanes\<close> of the successor stays empty.
\<close>

theorem junction_links:
  "\<forall>(k, j) \<in> set network. lane_type j = JUNCTION \<longrightarrow>
     (\<exists>inLane outLane.
        map_of network (lane_id inLane) = Some inLane \<and> lane_type inLane = ROAD \<and>
        map_of network (lane_id outLane) = Some outLane \<and> lane_type outLane = ROAD \<and>
        prevLanes j = [lane_id inLane] \<and> nextLanes j = [lane_id outLane] \<and>
        lane_id j = k \<and> k \<in> set (nextLanes inLane) \<and> prevLanes outLane = [])"
proof (intro ballI, clarify)
  fix k j assume kj: "(k, j) \<in> set network" "lane_type j = JUNCTION"
  let ?ps = "connected_pairs road_lanes"
  from network_junctions[OF kj] obtain p where p: "p \<in> set ?ps" "k = jid_of road_lanes p"
    "j = jlane_of road_lanes p" by blast
  have b: "fst p < length road_lanes" "snd p < length road_lanes"
    using connected_pairs_in p(1) by (simp_all add: pairs_in_def)
  let ?i = "road_after road_lanes ?ps (fst p)" and ?o = "road_after road_lanes ?ps (snd p)"
  have "map_of network (lane_id ?i) = Some ?i" "map_of network (lane_id ?o) = Some ?o"
    using network_lookup_road(1)[OF b(1)] network_lookup_road(1)[OF b(2)]
    by (simp_all add: road_after_fields)
  moreover have "lane_type ?i = ROAD" "lane_type ?o = ROAD"
    using roads_okD(1)[OF road_lanes_ok] b by (simp_all add: road_after_fields)
  moreover have "prevLanes j = [lane_id ?i]" "nextLanes j = [lane_id ?o]" "lane_id j = k"
    unfolding p by (simp_all add: jlane_of_def jid_of_def junction_lane_fields road_after_fields)
  moreover have "k \<in> set (nextLanes ?i)"
    unfolding p(2) using p(1) by (simp add: road_after_fields)
  moreover have "prevLanes ?o = []"
    using road_lanes_plain b(2) by (simp add: road_after_fields)
  ultimately show "\<exists>inLane outLane.
        map_of network (lane_id inLane) = Some inLane \<and> lane_type inLane = ROAD \<and>
        map_of network (lane_id outLane) = Some outLane \<and> lane_type outLane = ROAD \<and>
        prevLanes j = [lane_id inLane] \<and> nextLanes j = [lane_id outLane] \<and>
        lane_id j = k \<and> k \<in> set (nextLanes inLane) \<and> prevLanes outLane = []"
    by blast
qed

text \<open>
  Claim C9. For ROAD lanes \<open>in\<close> and \<open>out\<close> of the built network, a JUNCTION lane from
  \<open>in\<close> to \<open>out\<close> exists exactly when \<open>out\<close> leaves the destination node of \<open>in\<close>
  (its id starts with \<open>R_\<close>, that node and \<open>_\<close>: the road from node \<open>a\<close> to node \<open>b\<close>
  has the id \<open>R_a_b\<close>) and the angle between the end tangent of \<open>in\<close> and the start
  tangent of \<open>out\<close> is at most \<open>0.8 \<pi>\<close>. So for a pair at a common node the junction
  is created if and only if the angle does not exceed \<open>0.8 \<pi>\<close>, and never for a
  reversal.
\<close>

theorem junction_filter:
  assumes "(ki, inLane) \<in> set network" "lane_type inLane = ROAD"
    and "(ko, outLane) \<in> set network" "lane_type outLane = ROAD"
  shows "(\<exists>(kj, j) \<in> set network. lane_type j = JUNCTION \<and> prevLanes j = [lane_id inLane] \<and>
                                  nextLanes j = [lane_id outLane])
         \<longleftrightarrow> startsWith (lane_id outLane) (''R_'' @ template_str (toNodeId inLane) @ ''_'') \<and>
             angleTo (getTangent (path inLane) 1) (getTangent (path outLane) 0) \<le> pi * (8 / 10)"
proof -
  let ?ps = "connected_pairs road_lanes"
  from network_roads[OF assms(1,2)] obtain i where i: "i < length road_lanes"
    "inLane = road_after road_lanes ?ps i" by blast
  from network_roads[OF assms(3,4)] obtain oa where oa: "oa < length road_lanes"
    "outLane = road_after road_lanes ?ps oa" by blast
  have acc: "accepts (road_lanes ! i) (road_lanes ! oa) \<longleftrightarrow>
      startsWith (lane_id outLane) (''R_'' @ template_str (toNodeId inLane) @ ''_'') \<and>
      angleTo (getTangent (path inLane) 1) (getTangent (path outLane) 0) \<le> pi * (8 / 10)"
    unfolding i(2) oa(2) accepts_def by (auto simp: road_after_fields)
  have "(\<exists>(kj, j) \<in> set network. lane_type j = JUNCTION \<and> prevLanes j = [lane_id inLane] \<and>
                                  nextLanes j = [lane_id outLane]) \<longleftrightarrow> (i, oa) \<in> set ?ps"
  proof
    assume "\<exists>(kj, j) \<in> set network. lane_type j = JUNCTION \<and> prevLanes j = [lane_id inLane] \<and>
                                  nextLanes j = [lane_id outLane]"
    then obtain kj j where j: "(kj, j) \<in> set network" "lane_type j = JUNCTION"
      "prevLanes j = [lane_id inLane]" "nextLanes j = [lane_id outLane]" by auto
    from network_junctions[OF j(1,2)] obtain p where p: "p \<in> set ?ps" "j = jlane_of road_lanes p"
      by blast
    have b: "fst p < length road_lanes" "snd p < length road_lanes"
      using connected_pairs_in p(1) by (simp_all add: pairs_in_def)
    have "lane_id (road_lanes ! fst p) = lane_id (road_lanes ! i)"
      "lane_id (road_lanes ! snd p) = lane_id (road_lanes ! oa)"
      using j(3,4) unfolding p(2) i(2) oa(2)
      by (simp_all add: jlane_of_def junction_lane_fields road_after_fields)
    then have "fst p = i" "snd p = oa"
      using road_ids_inj b i(1) oa(1) by simp_all
    then show "(i, oa) \<in> set ?ps" using p(1) by (metis prod.collapse)
  next
    assume m: "(i, oa) \<in> set ?ps"
    have "(jid_of road_lanes (i, oa), jlane_of road_lanes (i, oa)) \<in> set network"
      by (rule network_lookup_junction(2)[OF m])
    moreover have "lane_type (jlane_of road_lanes (i, oa)) = JUNCTION \<and>
        prevLanes (jlane_of road_lanes (i, oa)) = [lane_id inLane] \<and>
        nextLanes (jlane_of road_lanes (i, oa)) = [lane_id outLane]"
      unfolding i(2) oa(2) by (simp add: jlane_of_def junction_lane_fields road_after_fields)
    ultimately show "\<exists>(kj, j) \<in> set network. lane_type j = JUNCTION \<and> prevLanes j = [lane_id inLane] \<and>
                                  nextLanes j = [lane_id outLane]"
      by blast
  qed
  then show ?thesis
    using acc i(1) oa(1) by (simp add: connected_pairs_iff)
qed

lemma road_0:
  "lane_id (road_lanes ! 0) = ''R_0_0_1_0''" "toNodeId (road_lanes ! 0) = Some ''1_0''"
  "path (road_lanes ! 0) = LineCurve3 (Vector3 (- 148) 0 (- 157)) (Vector3 (- 12) 0 (- 157))"
  by (simp_all add: road_lanes_def)

lemma road_10:
  "lane_id (road_lanes ! 10) = ''R_1_0_2_0''" "toNodeId (road_lanes ! 10) = Some ''2_0''"
  "path (road_lanes ! 10) = LineCurve3 (Vector3 12 0 (- 157)) (Vector3 148 0 (- 157))"
  by (simp_all add: road_lanes_def)

lemma road_11:
  "lane_id (road_lanes ! 11) = ''R_2_0_1_0''"
  "path (road_lanes ! 11) = LineCurve3 (Vector3 148 0 (- 163)) (Vector3 12 0 (- 163))"
  by (simp_all add: road_lanes_def)

lemma angle_straight: "angleTo (Vector3 1 0 0) (Vector3 1 0 0) = 0"
  by (simp add: angleTo_def lengthSq_def v_dot_def clamp_def)

lemma angle_reverse: "angleTo (Vector3 1 0 0) (Vector3 (- 1) 0 0) = pi"
  by (simp add: angleTo_def lengthSq_def v_dot_def clamp_def)

lemma angle_0_10: "angleTo (getTangent (path (road_lanes ! 0)) 1) (getTangent (path (road_lanes ! 10)) 0) = 0"
  unfolding road_0 road_10
  by (simp add: normalize_def v_sub_def v_length_axis divideScalar_def multiplyScalar_def angle_straight)

lemma angle_10_11: "angleTo (getTangent (path (road_lanes ! 10)) 1) (getTangent (path (road_lanes ! 11)) 0) = pi"
  unfolding road_10 road_11
  by (simp add: normalize_def v_sub_def v_length_axis divideScalar_def multiplyScalar_def angle_reverse)

lemma pair_0_10: "(0, 10) \<in> set (connected_pairs road_lanes)"
  using pi_gt_zero
  by (simp add: connected_pairs_iff accepts_def angle_0_10 road_0(1,2) road_10(1) road_lanes_length
        startsWith_def template_str_def)

lemma jid_0_10: "jid_of road_lanes (0, 10) = ''J_R_0_0_1_0_R_1_0_2_0''"
  by (simp add: jid_of_def road_0 road_10 junction_id_def)

text \<open>
  Claim C2, as the specification states it: the junction lane is also registered in
  the \<open>prevLanes\<close> of its successor. For the junction from \<open>R_0_0_1_0\<close> to
  \<open>R_1_0_2_0\<close> of the built network it is not.
\<close>

theorem junction_links_counterexample:
  "\<exists>j outLane.
     map_of network ''J_R_0_0_1_0_R_1_0_2_0'' = Some j \<and> lane_type j = JUNCTION \<and>
     prevLanes j = [''R_0_0_1_0''] \<and> nextLanes j = [''R_1_0_2_0''] \<and>
     map_of network ''R_1_0_2_0'' = Some outLane \<and> lane_type outLane = ROAD \<and>
     ''J_R_0_0_1_0_R_1_0_2_0'' \<notin> set (prevLanes outLane)"
proof -
  let ?ps = "connected_pairs road_lanes"
  have j: "map_of network ''J_R_0_0_1_0_R_1_0_2_0'' = Some (jlane_of road_lanes (0, 10))"
    using network_lookup_junction(1)[OF pair_0_10] unfolding jid_0_10 .
  have "(10::nat) < length road_lanes" by (simp add: road_lanes_length)
  from network_lookup_road(1)[OF this]
  have o: "map_of network ''R_1_0_2_0'' = Some (road_after road_lanes ?ps 10)"
    unfolding road_10 .
  have "lane_type (jlane_of road_lanes (0, 10)) = JUNCTION \<and>
        prevLanes (jlane_of road_lanes (0, 10)) = [''R_0_0_1_0''] \<and>
        nextLanes (jlane_of road_lanes (0, 10)) = [''R_1_0_2_0'']"
    by (simp add: jlane_of_def junction_lane_fields road_0 road_10)
  moreover have "lane_type (road_after road_lanes ?ps 10) = ROAD \<and>
        ''J_R_0_0_1_0_R_1_0_2_0'' \<notin> set (prevLanes (road_after road_lanes ?ps 10))"
    by (simp add: road_after_fields road_lanes_def)
  ultimately show ?thesis using j o by blast
qed

theorem junction_links_witness:
  "(''J_R_0_0_1_0_R_1_0_2_0'', jlane_of road_lanes (0, 10)) \<in> set network \<and>
   lane_type (jlane_of road_lanes (0, 10)) = JUNCTION \<and>
   (\<exists>inLane outLane.
        map_of network (lane_id inLane) = Some inLane \<and> lane_type inLane = ROAD \<and>
        map_of network (lane_id outLane) = Some outLane \<and> lane_type outLane = ROAD \<and>
        prevLanes (jlane_of road_lanes (0, 10)) = [lane_id inLane] \<and>
        nextLanes (jlane_of road_lanes (0, 10)) = [lane_id outLane] \<and>
        lane_id (jlane_of road_lanes (0, 10)) = ''J_R_0_0_1_0_R_1_0_2_0'' \<and>
        ''J_R_0_0_1_0_R_1_0_2_0'' \<in> set (nextLanes inLane) \<and> prevLanes outLane = [])"
proof -
  have m: "(''J_R_0_0_1_0_R_1_0_2_0'', jlane_of road_lanes (0, 10)) \<in> set network"
    using network_lookup_junction(2)[OF pair_0_10] unfolding jid_0_10 .
  have t: "lane_type (jlane_of road_lanes (0, 10)) = JUNCTION"
    by (simp add: jlane_of_def junction_lane_fields)
  from junction_links m t show ?thesis by blast
qed

theorem junction_filter_witness:
  "(''R_1_0_2_0'', road_after road_lanes (connected_pairs road_lanes) 10) \<in> set network \<and>
   lane_type (road_after road_lanes (connected_pairs road_lanes) 10) = ROAD \<and>
   (''R_2_0_1_0'', road_after road_lanes (connected_pairs road_lanes) 11) \<in> set network \<and>
   lane_type (road_after road_lanes (connected_pairs road_lanes) 11) = ROAD \<and>
   (''R_0_0_1_0'', road_after road_lanes (connected_pairs road_lanes) 0) \<in> set network \<and>
   lane_type (road_after road_lanes (connected_pairs road_lanes) 0) = ROAD \<and>
   startsWith ''R_2_0_1_0'' (''R_'' @ template_str (Some ''2_0'') @ ''_'') \<and>
   angleTo (getTangent (path (road_after road_lanes (connected_pairs road_lanes) 10)) 1)
           (getTangent (path (road_after road_lanes (connected_pairs road_lanes) 11)) 0) = pi \<and>
   \<not> (\<exists>(kj, j) \<in> set network. lane_type j = JUNCTION \<and> prevLanes j = [''R_1_0_2_0''] \<and>
                               nextLanes j = [''R_2_0_1_0'']) \<and>
   startsWith ''R_1_0_2_0'' (''R_'' @ template_str (Some ''1_0'') @ ''_'') \<and>
   angleTo (getTangent (path (road_after road_lanes (connected_pairs road_lanes) 0)) 1)
           (getTangent (path (road_after road_lanes (connected_pairs road_lanes) 10)) 0) = 0 \<and>
   (\<exists>(kj, j) \<in> set network. lane_type j = JUNCTION \<and> prevLanes j = [''R_0_0_1_0''] \<and>
                            nextLanes j = [''R_1_0_2_0''])"
proof -
  let ?ps = "connected_pairs road_lanes"
  let ?i = "road_after road_lanes ?ps 10" and ?o = "road_after road_lanes ?ps 11"
  let ?h = "road_after road_lanes ?ps 0"
  have l: "(10::nat) < length road_lanes" "(11::nat) < length road_lanes" "(0::nat) < length road_lanes"
    by (simp_all add: road_lanes_length)
  have mi: "(''R_1_0_2_0'', ?i) \<in> set network"
    using network_lookup_road(2)[OF l(1)] unfolding road_10 .
  have mo: "(''R_2_0_1_0'', ?o) \<in> set network"
    using network_lookup_road(2)[OF l(2)] unfolding road_11 .
  have mh: "(''R_0_0_1_0'', ?h) \<in> set network"
    using network_lookup_road(2)[OF l(3)] unfolding road_0 .
  have ti: "lane_type ?i = ROAD" and to: "lane_type ?o = ROAD" and th: "lane_type ?h = ROAD"
    using roads_okD(1)[OF road_lanes_ok] l by (simp_all add: road_after_fields)
  have ang: "angleTo (getTangent (path ?i) 1) (getTangent (path ?o) 0) = pi"
    using angle_10_11 by (simp add: road_after_fields)
  have ang0: "angleTo (getTangent (path ?h) 1) (getTangent (path ?i) 0) = 0"
    using angle_0_10 by (simp add: road_after_fields)
  have sw: "startsWith ''R_2_0_1_0'' (''R_'' @ template_str (Some ''2_0'') @ ''_'')"
           "startsWith ''R_1_0_2_0'' (''R_'' @ template_str (Some ''1_0'') @ ''_'')"
    by (simp_all add: startsWith_def template_str_def)
  have "\<not> pi \<le> pi * (8 / 10)" using pi_gt_zero by simp
  with junction_filter[OF mi ti mo to] ang
  have "\<not> (\<exists>(kj, j) \<in> set network. lane_type j = JUNCTION \<and> prevLanes j = [lane_id ?i] \<and>
                               nextLanes j = [lane_id ?o])"
    by simp
  then have no: "\<not> (\<exists>(kj, j) \<in> set network. lane_type j = JUNCTION \<and> prevLanes j = [''R_1_0_2_0''] \<and>
                               nextLanes j = [''R_2_0_1_0''])"
    by (simp add: road_after_fields road_10 road_11)
  have "startsWith (lane_id ?i) (''R_'' @ template_str (toNodeId ?h) @ ''_'')"
    using sw(2) by (simp add: road_after_fields road_0(2) road_10(1))
  moreover have "(0::real) \<le> pi * (8 / 10)" using pi_gt_zero by simp
  ultimately have "\<exists>(kj, j) \<in> set network. lane_type j = JUNCTION \<and> prevLanes j = [lane_id ?h] \<and>
                               nextLanes j = [lane_id ?i]"
    using junction_filter[OF mh th mi ti] ang0 by simp
  then have yes: "\<exists>(kj, j) \<in> set network. lane_type j = JUNCTION \<and> prevLanes j = [''R_0_0_1_0''] \<and>
                               nextLanes j = [''R_1_0_2_0'']"
    by (simp add: road_after_fields road_0(1) road_10(1))
  show ?thesis using mi mo mh ti to th ang ang0 sw no yes by blast
qed

section \<open>From the first tick on\<close>

lemma startLanes_mem:
  assumes "lane \<in> set (startLanes ls)"
  shows "lane_type lane = ROAD" "\<exists>k. (k, lane) \<in> set ls"
  using assms unfolding startLanes_def by auto

lemma wf_net_lane_lookup:
  assumes wf: "wf_net ls" and m: "(k, lane) \<in> set ls"
  shows "map_of ls (lane_id lane) = Some lane" "0 < len lane"
proof -
  have d: "distinct (map fst ls)" using wf by (simp add: wf_net_def)
  then have l: "map_of ls k = Some lane" using m by simp
  show "map_of ls (lane_id lane) = Some lane"
    using wf_net_lookup(2)[OF wf l] l by simp
  show "0 < len lane"
    using wf_net_lookup(3)[OF wf l] V_MAX_pos(3) by linarith
qed

lemma new_car_ok:
  assumes wf: "wf_net ls" and lane: "lane \<in> set (startLanes ls)" and r: "0 \<le> r" "r < 1"
  shows "init_ok ls (new_car i lane r) \<and> car_ok ls (new_car i lane r) \<and> car_id (new_car i lane r) = i"
proof -
  obtain k where k: "(k, lane) \<in> set ls" using startLanes_mem(2)[OF lane] by blast
  have t: "lane_type lane = ROAD" by (rule startLanes_mem(1)[OF lane])
  have g: "map_of ls (lane_id lane) = Some lane" and l: "0 < len lane"
    using wf_net_lane_lookup[OF wf k] by simp_all
  have "r * len lane < 1 * len lane" using r(2) l by (intro mult_strict_right_mono) simp_all
  then have hi: "r * len lane * (9 / 10) < (9 / 10) * len lane" by simp
  have lo: "0 \<le> r * len lane * (9 / 10)" using r(1) l by simp
  have "init_ok ls (new_car i lane r)"
    using g t lo hi by (simp add: init_ok_def lanes_get_def new_car_def IDM_V0_def)
  moreover have "car_ok ls (new_car i lane r)"
    using g lo hi l
    by (intro car_okI[where k = "lane_id lane" and lane = lane])
       (simp_all add: new_car_def V_MAX_def IDM_V0_def IDM_A_def PHYSICS_DT_def PHYSICS_HZ_def)
  ultimately show ?thesis by (simp add: new_car_def)
qed

lemma init_loop_ok:
  assumes wf: "wf_net ls" and ne: "startLanes ls \<noteq> []"
    and rl: "\<forall>i. 0 \<le> r_lane i \<and> r_lane i < 1" and rp: "\<forall>i. 0 \<le> r_pos i \<and> r_pos i < 1"
  shows "\<exists>new. init_loop ls r_lane r_pos is cars = Some (cars @ new) \<and> map car_id new = is \<and>
           (\<forall>c \<in> set new. init_ok ls c \<and> car_ok ls c)"
proof (induction "is" arbitrary: cars)
  case Nil
  then show ?case by simp
next
  case (Cons i "is")
  let ?n = "length (startLanes ls)"
  let ?lane = "startLanes ls ! rnd_index (r_lane i) ?n"
  have idx: "rnd_index (r_lane i) ?n < ?n"
    using rnd_index_less[of "r_lane i" ?n] rl ne by simp
  then have pick: "nth_opt (startLanes ls) (rnd_index (r_lane i) ?n) = Some ?lane"
    by (simp add: nth_opt_def)
  have mem: "?lane \<in> set (startLanes ls)" using idx by simp
  have c: "init_ok ls (new_car i ?lane (r_pos i)) \<and> car_ok ls (new_car i ?lane (r_pos i)) \<and>
           car_id (new_car i ?lane (r_pos i)) = i"
    using new_car_ok[OF wf mem, of "r_pos i" i] rp by simp
  from Cons.IH[of "cars @ [new_car i ?lane (r_pos i)]"]
  obtain new where new: "init_loop ls r_lane r_pos is (cars @ [new_car i ?lane (r_pos i)])
        = Some ((cars @ [new_car i ?lane (r_pos i)]) @ new)"
    "map car_id new = is" "\<forall>c \<in> set new. init_ok ls c \<and> car_ok ls c" by blast
  show ?case
    using pick new c
    by (intro exI[of _ "new_car i ?lane (r_pos i) # new"]) simp
qed

lemma initCars_ok:
  assumes wf: "wf_net ls" and ne: "startLanes ls \<noteq> []"
    and rl: "\<forall>i. 0 \<le> r_lane i \<and> r_lane i < 1" and rp: "\<forall>i. 0 \<le> r_pos i \<and> r_pos i < 1"
  shows "\<exists>cars. initCars ls r_lane r_pos [] = Some cars \<and> map car_id cars = [0..<CAR_COUNT] \<and>
           (\<forall>c \<in> set cars. init_ok ls c \<and> car_ok ls c)"
  using init_loop_ok[OF assms, of "[0..<CAR_COUNT]" "[]"] by (simp add: initCars_def)

lemma network_startLanes: "startLanes network \<noteq> []"
proof -
  have l: "(0::nat) < length road_lanes" by (simp add: road_lanes_length)
  have "road_after road_lanes (connected_pairs road_lanes) 0 \<in> snd ` set network"
    using network_lookup_road(2)[OF l] by force
  moreover have "lane_type (road_after road_lanes (connected_pairs road_lanes) 0) = ROAD"
    using roads_okD(1)[OF road_lanes_ok l] by (simp add: road_after_fields)
  ultimately have "road_after road_lanes (connected_pairs road_lanes) 0 \<in> set (startLanes network)"
    by (simp add: startLanes_def)
  then show ?thesis by auto
qed

text \<open>
  Claim C10. On the built network, for any random draws in \<open>[0, 1)\<close>, \<^verbatim>\<open>initCars\<close>
  returns the fixed population of 500 cars, with the ids 0 to 499; the lane of each car
  is a ROAD lane of the network, its position is in \<open>[0, 0.9 len)\<close> of that lane, its
  speed is half the desired speed (hence positive), its acceleration is 0 and it has no
  target lane, so that its position is in the range of its lane and its speed is not
  negative.
\<close>

theorem initial_cars:
  assumes "\<forall>i. 0 \<le> r_lane i \<and> r_lane i < 1" and "\<forall>i. 0 \<le> r_pos i \<and> r_pos i < 1"
  shows "\<exists>cars. initCars network r_lane r_pos [] = Some cars \<and> length cars = CAR_COUNT \<and>
           CAR_COUNT = 500 \<and> map car_id cars = [0..<CAR_COUNT] \<and>
           (\<forall>c \<in> set cars. init_ok network c \<and> in_range network c \<and> 0 \<le> car_v c)"
proof -
  from initCars_ok[OF network_wf network_startLanes assms]
  obtain cars where c: "initCars network r_lane r_pos [] = Some cars" "map car_id cars = [0..<CAR_COUNT]"
    "\<forall>c \<in> set cars. init_ok network c \<and> car_ok network c" by blast
  have l: "length cars = CAR_COUNT" using c(2) by (metis length_map length_upt minus_nat.diff_0)
  have "\<forall>c \<in> set cars. init_ok network c \<and> in_range network c \<and> 0 \<le> car_v c"
    using c(3) car_ok_in_range by blast
  then show ?thesis using c(1,2) l by (simp add: CAR_COUNT_def)
qed

theorem initial_cars_witness:
  "(\<forall>i::nat. (0::real) \<le> 0 \<and> (0::real) < 1) \<and> (\<forall>i::nat. (0::real) \<le> 1 / 2 \<and> (1 / 2::real) < 1) \<and>
   (\<exists>cars. initCars network (\<lambda>i. 0) (\<lambda>i. 1 / 2) [] = Some cars \<and> length cars = CAR_COUNT \<and>
           CAR_COUNT = 500 \<and> map car_id cars = [0..<CAR_COUNT] \<and>
           (\<forall>c \<in> set cars. init_ok network c \<and> in_range network c \<and> 0 \<le> car_v c))"
proof -
  have a: "\<forall>i::nat. (0::real) \<le> 0 \<and> (0::real) < 1" by simp
  have b: "\<forall>i::nat. (0::real) \<le> 1 / 2 \<and> (1 / 2::real) < 1" by simp
  from initial_cars[of "\<lambda>i. 0" "\<lambda>i. 1 / 2", OF a b] a b show ?thesis by blast
qed

text \<open>
  Claim C6. In the simulation as it runs (the built network, the cars of \<^verbatim>\<open>initCars\<close>,
  ticks of the fixed physics step, any random draws in \<open>[0, 1)\<close>), every tick returns,
  the population stays 500, and at the end of every tick every car is on a lane of the
  network at a position \<open>t\<close> with \<open>0 \<le> t < len\<close> of that lane.
\<close>

theorem position_invariant:
  assumes "\<forall>i. 0 \<le> r_lane i \<and> r_lane i < 1" and "\<forall>i. 0 \<le> r_pos i \<and> r_pos i < 1"
    and "\<forall>m i. 0 \<le> r_target m i \<and> r_target m i < 1"
    and "\<forall>m i. 0 \<le> r_respawn m i \<and> r_respawn m i < 1"
  shows "\<exists>cars0. initCars network r_lane r_pos [] = Some cars0 \<and>
           (\<forall>n. \<exists>lts cars.
               run_ticks n network r_target r_respawn (build_lights r_phase r_timer, cars0) = Some (lts, cars) \<and>
               length cars = CAR_COUNT \<and> (\<forall>c \<in> set cars. in_range network c))"
proof -
  from initCars_ok[OF network_wf network_startLanes assms(1,2)]
  obtain cars0 where c0: "initCars network r_lane r_pos [] = Some cars0"
    "map car_id cars0 = [0..<CAR_COUNT]"
    "\<forall>c \<in> set cars0. init_ok network c \<and> car_ok network c" by blast
  have "length cars0 = CAR_COUNT" using c0(2) by (metis length_map length_upt minus_nat.diff_0)
  note c = c0(1) this c0(3)
  have ok: "\<forall>c \<in> set cars0. car_ok network c" using c(3) by simp
  have "\<exists>lts cars.
          run_ticks n network r_target r_respawn (build_lights r_phase r_timer, cars0) = Some (lts, cars) \<and>
          length cars = CAR_COUNT \<and> (\<forall>c \<in> set cars. in_range network c)" for n
  proof -
    from run_ok[OF network_wf ok assms(3,4), of n "build_lights r_phase r_timer"]
    obtain lts cars where r: "run_ticks n network r_target r_respawn (build_lights r_phase r_timer, cars0)
          = Some (lts, cars)" "length cars = length cars0" "\<forall>c \<in> set cars. car_ok network c"
      by blast
    have "\<forall>c \<in> set cars. in_range network c" using r(3) car_ok_in_range by blast
    then show ?thesis using r(1,2) c(2) by simp
  qed
  then show ?thesis using c(1) by blast
qed

theorem position_invariant_witness:
  "(\<forall>i::nat. (0::real) \<le> 0 \<and> (0::real) < 1) \<and> (\<forall>i::nat. (0::real) \<le> 1 / 2 \<and> (1 / 2::real) < 1) \<and>
   (\<exists>cars0. initCars network (\<lambda>i. 0) (\<lambda>i. 1 / 2) [] = Some cars0 \<and>
      (\<forall>n. \<exists>lts cars.
          run_ticks n network (\<lambda>m i. 1 / 2) (\<lambda>m i. 0) (build_lights (\<lambda>x z. 0) (\<lambda>x z. 1 / 2), cars0)
            = Some (lts, cars) \<and>
          length cars = CAR_COUNT \<and> (\<forall>c \<in> set cars. in_range network c)))"
proof -
  have a: "\<forall>i::nat. (0::real) \<le> 0 \<and> (0::real) < 1" by simp
  have b: "\<forall>i::nat. (0::real) \<le> 1 / 2 \<and> (1 / 2::real) < 1" by simp
  have c: "\<forall>(m::nat) i::nat. (0::real) \<le> 1 / 2 \<and> (1 / 2::real) < 1" by simp
  have d: "\<forall>(m::nat) i::nat. (0::real) \<le> 0 \<and> (0::real) < 1" by simp
  from position_invariant[of "\<lambda>i. 0" "\<lambda>i. 1 / 2" "\<lambda>m i. 1 / 2" "\<lambda>m i. 0" "\<lambda>x z. 0" "\<lambda>x z. 1 / 2",
      OF a b c d] a b
  show ?thesis by blast
qed

end
